(* ===== verification/C_Prelude.thy ===== *)
theory C_Prelude
  imports Main "HOL-Library.Signed_Division"
begin

section \<open>Prelude: outcomes of C code, arrays and truncating division\<close>

text \<open>
  The vocabulary every component shares. A piece of C code ends in one of four ways, the
  constructors of \<open>cres\<close>: it returns a value, it calls \<open>exit\<close>, it does something the
  C standard leaves undefined (an array access out of range, a read of indeterminate
  memory, a division by zero, a value used from a function that fell off its end), or it
  has not stopped within the fuel a loop was given. Sequencing is \<open>cbind\<close>.

  Arrays are lists; \<open>aget\<close> and \<open>aset\<close> check the index, \<open>agetv\<close> also checks that the
  cell holds a value (a cell of freshly allocated memory is \<open>None\<close>). \<open>cdiv\<close> and
  \<open>cmod\<close> are C's \<open>/\<close> and \<open>%\<close>, which truncate towards zero.
\<close>

named_theorems cres_simps \<open>evaluation of C outcomes\<close>
named_theorems frame_simps \<open>what an operation leaves unchanged\<close>

datatype 'a cres = Ret 'a | Exit int | UB | Diverge

primrec cbind :: "'a cres \<Rightarrow> ('a \<Rightarrow> 'b cres) \<Rightarrow> 'b cres" where
  "cbind (Ret x) f = f x"
| "cbind (Exit n) f = Exit n"
| "cbind UB f = UB"
| "cbind Diverge f = Diverge"

definition aget :: "'a list \<Rightarrow> int \<Rightarrow> 'a cres" where
  "aget xs i = (if 0 \<le> i \<and> i < int (length xs) then Ret (xs ! nat i) else UB)"

definition aset :: "'a list \<Rightarrow> int \<Rightarrow> 'a \<Rightarrow> 'a list cres" where
  "aset xs i v = (if 0 \<le> i \<and> i < int (length xs) then Ret (xs[nat i := v]) else UB)"

definition agetv :: "'a option list \<Rightarrow> int \<Rightarrow> 'a cres" where
  "agetv xs i = cbind (aget xs i) (\<lambda>v. case v of None \<Rightarrow> UB | Some x \<Rightarrow> Ret x)"

definition cdiv :: "int \<Rightarrow> int \<Rightarrow> int cres" where
  "cdiv a b = (if b = 0 then UB else Ret (a sdiv b))"

definition cmod :: "int \<Rightarrow> int \<Rightarrow> int cres" where
  "cmod a b = (if b = 0 then UB else Ret (a smod b))"

text \<open>
  Counting loops. \<open>cfold\<close> runs a body for each index of a list and threads its state;
  \<open>cfor\<close> also lets the body leave the loop (\<open>break\<close> or \<open>return\<close>) with a result.
  \<open>range0 n\<close> is the index range of \<open>for (i = 0; i < n; i++)\<close>.
\<close>

datatype ('s, 'r) ctl = Next 's | Stop 'r

definition range0 :: "int \<Rightarrow> int list" where
  "range0 n = map int [0..<nat n]"

fun cfold :: "(int \<Rightarrow> 's \<Rightarrow> 's cres) \<Rightarrow> int list \<Rightarrow> 's \<Rightarrow> 's cres" where
  "cfold f [] s = Ret s"
| "cfold f (i # is) s = cbind (f i s) (\<lambda>s'. cfold f is s')"

fun cfor :: "(int \<Rightarrow> 's \<Rightarrow> ('s, 'r) ctl cres) \<Rightarrow> int list \<Rightarrow> 's \<Rightarrow> ('s, 'r) ctl cres" where
  "cfor f [] s = Ret (Next s)"
| "cfor f (i # is) s =
     cbind (f i s) (\<lambda>c. case c of Next s' \<Rightarrow> cfor f is s' | Stop r \<Rightarrow> Ret (Stop r))"

text \<open>Error numbers.\<close>

definition EPERM :: int where "EPERM = 1"
definition ESRCH :: int where "ESRCH = 3"
definition EINTR :: int where "EINTR = 4"
definition E2BIG :: int where "E2BIG = 7"
definition ECHILD :: int where "ECHILD = 10"
definition EAGAIN :: int where "EAGAIN = 11"
definition ENOMEM :: int where "ENOMEM = 12"
definition EFAULT :: int where "EFAULT = 14"
definition EBUSY :: int where "EBUSY = 16"
definition EINVAL :: int where "EINVAL = 22"
definition EOPNOTSUPP :: int where "EOPNOTSUPP = 95"

lemmas errnos = EPERM_def ESRCH_def EINTR_def E2BIG_def ECHILD_def EAGAIN_def ENOMEM_def EFAULT_def
  EBUSY_def EINVAL_def EOPNOTSUPP_def

subsection \<open>Outcomes\<close>

lemma cbind_Ret_iff: "cbind m f = Ret y \<longleftrightarrow> (\<exists>x. m = Ret x \<and> f x = Ret y)"
  by (cases m) auto

lemma Ret_cbind_iff: "Ret y = cbind m f \<longleftrightarrow> (\<exists>x. m = Ret x \<and> f x = Ret y)"
  by (cases m) auto

lemma cbind_assoc [simp]: "cbind (cbind m f) g = cbind m (\<lambda>x. cbind (f x) g)"
  by (cases m) auto

lemma cbind_Ret_right [simp]: "cbind m Ret = m"
  by (cases m) auto

lemma cbind_cong [fundef_cong]:
  "m = m' \<Longrightarrow> (\<And>x. m' = Ret x \<Longrightarrow> f x = g x) \<Longrightarrow> cbind m f = cbind m' g"
  by (cases m') auto

subsection \<open>Loops\<close>

lemma set_range0: "i \<in> set (range0 n) \<longleftrightarrow> 0 \<le> i \<and> i < n"
  by (auto simp: range0_def image_iff intro!: bexI [of _ "nat i"])

lemma range0_of_nat: "range0 (int n) = map int [0..<n]"
  by (simp add: range0_def)

lemma cfold_append: "cfold f (xs @ ys) s = cbind (cfold f xs s) (\<lambda>s'. cfold f ys s')"
  by (induction xs arbitrary: s) (auto intro: cbind_cong)

lemma cfor_append: "cfor f (xs @ ys) s =
    cbind (cfor f xs s) (\<lambda>c. case c of Next s' \<Rightarrow> cfor f ys s' | Stop r \<Rightarrow> Ret (Stop r))"
proof (induction xs arbitrary: s)
  case (Cons x xs)
  show ?case
  proof (cases "f x s")
    case (Ret c)
    then show ?thesis using Cons by (cases c) auto
  qed auto
qed simp

text \<open>A loop whose body always continues, step by step, is a fold.\<close>

lemma cfold_Ret:
  assumes "\<And>i s. i \<in> set is \<Longrightarrow> P s \<Longrightarrow> f i s = Ret (g i s) \<and> P (g i s)" and "P s"
  shows "cfold f is s = Ret (fold g is s) \<and> P (fold g is s)"
  using assms by (induction "is" arbitrary: s) auto

text \<open>A search loop: the body continues without changing the state until some index stops it.\<close>

lemma cfor_skip:
  assumes "\<And>i. i \<in> set is \<Longrightarrow> f i s = Ret (Next s)"
  shows "cfor f is s = Ret (Next s)"
  using assms by (induction "is") auto

lemma upt_split_at: "k < n \<Longrightarrow> [0..<n] = [0..<k] @ k # [Suc k..<n]"
  by (metis le_add_diff_inverse less_imp_le upt_add_eq_append upt_rec zero_le)

lemma cfor_steps:
  assumes "\<And>i s. i < k \<Longrightarrow> f (int i) s = Ret (Next (g s))"
  shows "cfor f (map int [0..<k]) s = Ret (Next ((g ^^ k) s))"
  using assms by (induction k) (simp_all add: cfor_append)

lemma cfor_find:
  assumes "\<And>i s. i < k \<Longrightarrow> f (int i) s = Ret (Next (g s))"
    and "f (int k) ((g ^^ k) s) = Ret (Stop r)" and "k < n"
  shows "cfor f (range0 (int n)) s = Ret (Stop r)"
proof -
  have "cfor f (map int [0..<k]) s = Ret (Next ((g ^^ k) s))" using assms(1) by (rule cfor_steps)
  with assms(2) show ?thesis
    by (simp add: range0_of_nat upt_split_at [OF assms(3)] cfor_append del: upt_Suc)
qed

lemma funpow_id [simp]: "((\<lambda>x. x) ^^ k) s = s"
  by (induction k) auto

lemma funpow_plus1 [simp]: "((\<lambda>x. x + 1) ^^ k) (s::int) = s + int k"
  by (induction k) auto

lemma cfold_fold:
  assumes "\<And>i s. i < n \<Longrightarrow> f (int i) s = Ret (g i s)"
  shows "cfold f (range0 (int n)) s = Ret (fold g [0..<n] s)"
proof -
  have "cfold f (map int xs) s = Ret (fold g xs s)" if "set xs \<subseteq> {..<n}" for xs
    using that assms by (induction xs arbitrary: s) auto
  then show ?thesis by (simp add: range0_of_nat lessThan_atLeast0)
qed

text \<open>A loop that remembers the last match: with one matching index, that one.\<close>

lemma cfold_select:
  assumes "\<And>j d. j < m \<Longrightarrow> f (int j) d = Ret (if P j then g j else d)"
  shows "cfold f (range0 (int m)) d = Ret (fold (\<lambda>j d. if P j then g j else d) [0..<m] d)"
  using assms by (rule cfold_fold)

lemma fold_select_none: "(\<And>j. j \<in> set xs \<Longrightarrow> \<not> P j) \<Longrightarrow> fold (\<lambda>j d. if P j then g j else d) xs d = d"
  by (induction xs) auto

lemma fold_select_unique:
  assumes "k < m" and "P k" and "\<And>j. j < m \<Longrightarrow> P j \<Longrightarrow> j = k"
  shows "fold (\<lambda>j d. if P j then g j else d) [0..<m] d = g k"
proof -
  have "fold (\<lambda>j d. if P j then g j else d) [Suc k..<m] (g k) = g k"
    using assms(3) by (intro fold_select_none) force
  then show ?thesis using assms(2) upt_split_at [OF assms(1)] by simp
qed

text \<open>
  The loop that keeps the largest value seen and the index it was first seen at, started
  from a value below all of them.
\<close>

definition maxStep :: "(nat \<Rightarrow> int) \<Rightarrow> nat \<Rightarrow> int \<times> int \<Rightarrow> int \<times> int" where
  "maxStep d i ma = (if fst ma < d i then (d i, int i) else ma)"

lemma fold_max:
  assumes "\<And>i. i < n \<Longrightarrow> lo < d i" and "0 < n"
  shows "\<exists>k < n. fold (maxStep d) [0..<n] (lo, a) = (d k, int k) \<and>
    (\<forall>i < n. d i \<le> d k) \<and> (\<forall>i < k. d i < d k)"
  using assms
proof (induction n)
  case (Suc n)
  show ?case
  proof (cases "n = 0")
    case True
    then show ?thesis using Suc.prems(1) [of 0] by (simp add: maxStep_def)
  next
    case False
    then obtain k where k: "k < n" "fold (maxStep d) [0..<n] (lo, a) = (d k, int k)"
      "\<forall>i < n. d i \<le> d k" "\<forall>i < k. d i < d k" using Suc.IH Suc.prems(1) by auto
    have "fold (maxStep d) [0..<Suc n] (lo, a) = maxStep d n (d k, int k)" using k(2) by simp
    also have "\<dots> = (if d k < d n then (d n, int n) else (d k, int k))" by (simp add: maxStep_def)
    finally have step: "fold (maxStep d) [0..<Suc n] (lo, a) = \<dots>" .
    show ?thesis
    proof (cases "d k < d n")
      case True
      with k(1,3) step show ?thesis by (intro exI [of _ n]) (auto simp: less_Suc_eq simp del: upt_Suc)
    next
      case False
      with k(1,3,4) step show ?thesis by (intro exI [of _ k]) (auto simp: less_Suc_eq simp del: upt_Suc)
    qed
  qed
qed simp

subsection \<open>Arrays\<close>

lemma aget_in [simp]: "0 \<le> i \<Longrightarrow> i < int (length xs) \<Longrightarrow> aget xs i = Ret (xs ! nat i)"
  by (simp add: aget_def)

lemma aget_nat [simp]: "i < length xs \<Longrightarrow> aget xs (int i) = Ret (xs ! i)"
  by (simp add: aget_def)

lemma aset_in [simp]: "0 \<le> i \<Longrightarrow> i < int (length xs) \<Longrightarrow> aset xs i v = Ret (xs[nat i := v])"
  by (simp add: aset_def)

lemma aset_nat [simp]: "i < length xs \<Longrightarrow> aset xs (int i) v = Ret (xs[i := v])"
  by (simp add: aset_def)

lemma aget_out: "i < 0 \<or> int (length xs) \<le> i \<Longrightarrow> aget xs i = UB"
  by (auto simp: aget_def)

lemma aset_out: "i < 0 \<or> int (length xs) \<le> i \<Longrightarrow> aset xs i v = UB"
  by (auto simp: aset_def)

lemma aget_Ret_iff: "aget xs i = Ret v \<longleftrightarrow> 0 \<le> i \<and> i < int (length xs) \<and> v = xs ! nat i"
  by (auto simp: aget_def)

lemma aset_Ret_iff:
  "aset xs i v = Ret ys \<longleftrightarrow> 0 \<le> i \<and> i < int (length xs) \<and> ys = xs[nat i := v]"
  by (auto simp: aset_def)

lemma agetv_nat [simp]: "i < length xs \<Longrightarrow> xs ! i = Some v \<Longrightarrow> agetv xs (int i) = Ret v"
  by (simp add: agetv_def)

text \<open>A loop that rewrites each cell of an array from its old value is a map.\<close>

lemma cfold_map_if:
  assumes "\<And>i ys. i < length ys \<Longrightarrow> P i (ys ! i) \<Longrightarrow> f (int i) ys = Ret (ys[i := h (ys ! i)])"
    and "\<And>i. i < length xs \<Longrightarrow> P i (xs ! i)"
  shows "cfold f (range0 (int (length xs))) xs = Ret (map h xs)"
proof -
  have "cfold f (map int [0..<k]) xs = Ret (map h (take k xs) @ drop k xs)" if "k \<le> length xs" for k
    using that
  proof (induction k)
    case (Suc k)
    let ?ys = "map h (take k xs) @ drop k xs"
    have "?ys ! k = xs ! k" using Suc.prems by (simp add: nth_append)
    then have "f (int k) ?ys = Ret (?ys[k := h (?ys ! k)])"
      using Suc.prems assms(2) by (intro assms(1)) simp_all
    moreover have "?ys[k := h (?ys ! k)] = map h (take (Suc k) xs) @ drop (Suc k) xs"
      using Suc.prems by (simp add: nth_append list_update_append take_Suc_conv_app_nth
          flip: Cons_nth_drop_Suc)
    ultimately show ?case using Suc by (simp add: cfold_append)
  qed simp
  from this [of "length xs"] show ?thesis by (simp add: range0_of_nat)
qed

lemmas cfold_map = cfold_map_if [where P = "\<lambda>_ _. True", simplified]

subsection \<open>Truncating division of non-negative numbers\<close>

lemma smod_nonneg [simp]: "0 \<le> a \<Longrightarrow> 0 < b \<Longrightarrow> a smod b = a mod (b::int)"
  by (simp add: signed_modulo_int_def sgn_if)

lemma sdiv_nonneg [simp]: "0 \<le> a \<Longrightarrow> 0 < b \<Longrightarrow> a sdiv b = a div (b::int)"
  by (auto simp: signed_divide_int_def sgn_if)

lemma cmod_nonneg [simp]: "0 \<le> a \<Longrightarrow> 0 < b \<Longrightarrow> cmod a b = Ret (a mod b)"
  by (simp add: cmod_def)

lemma cdiv_nonneg [simp]: "0 \<le> a \<Longrightarrow> 0 < b \<Longrightarrow> cdiv a b = Ret (a div b)"
  by (simp add: cdiv_def)

lemma cmod_nat [simp]: "0 < n \<Longrightarrow> cmod (int a) (int n) = Ret (int (a mod n))"
  by (simp add: zmod_int)

subsection \<open>Indices modulo a capacity\<close>

lemma mod_shift_inj:
  fixes f a b n :: nat
  assumes "a < n" and "b < n" and "(f + a) mod n = (f + b) mod n"
  shows "a = b"
proof -
  have "int n dvd (int f + int a) - (int f + int b)"
    using assms(3) by (metis mod_eq_dvd_iff of_nat_add of_nat_mod)
  then have "int n dvd int a - int b" by simp
  with assms(1,2) show ?thesis
    by (metis mod_eq_dvd_iff mod_less nat_int of_nat_mod)
qed

end
