(* ===== verification/PageQueues.thy ===== *)
theory PageQueues
  imports C_Prelude
begin

section \<open>The circular page queue (src/4/as4.c, PageQueue)\<close>

text \<open>
  The ring buffer the page replacement algorithms keep frame numbers in, with the
  operations of the source. \<open>qrep q xs\<close> says that the buffer \<open>q\<close> holds the list
  \<open>xs\<close>, oldest element first; the lemmas refine every operation to its list
  counterpart. The interface that the replacement algorithms rely on is the locale
  \<open>bounded_fifo\<close>, interpreted on the ring buffer at the end. The diagnostics the
  source prints are not modelled, their return codes are.
\<close>

subsection \<open>Data and operations\<close>

record PageQueue =
  items :: "int option list"
  front :: int
  rear :: int
  maxSize :: int

text \<open>The flag says whether \<open>malloc\<close> succeeds; its cells hold no value yet.\<close>

definition initializePageQueue :: "bool \<Rightarrow> int \<Rightarrow> PageQueue cres" where
  "initializePageQueue mallocOk m =
     (if \<not> mallocOk then Exit 1
      else Ret \<lparr>items = replicate (nat m) None, front = -1, rear = -1, maxSize = m\<rparr>)"

definition isFull :: "PageQueue \<Rightarrow> bool cres" where
  "isFull q = cbind (cmod (rear q + 1) (maxSize q)) (\<lambda>r. Ret (r = front q))"

definition isEmpty :: "PageQueue \<Rightarrow> bool" where
  "isEmpty q \<longleftrightarrow> front q = -1"

definition enqueue :: "PageQueue \<Rightarrow> int \<Rightarrow> (int \<times> PageQueue) cres" where
  "enqueue q v =
     cbind (isFull q) (\<lambda>full.
       if full then Ret (-1, q)
       else
         let q1 = (if front q = -1 then q\<lparr>front := 0\<rparr> else q) in
         cbind (cmod (rear q1 + 1) (maxSize q1)) (\<lambda>r.
           let q2 = q1\<lparr>rear := r\<rparr> in
           cbind (aset (items q2) (rear q2) (Some v)) (\<lambda>xs.
             Ret (0, q2\<lparr>items := xs\<rparr>))))"

definition dequeue :: "bool \<Rightarrow> PageQueue \<Rightarrow> (int \<times> PageQueue) cres" where
  "dequeue mallocOk q =
     (if isEmpty q then Ret (-1, q)
      else
        cbind (agetv (items q) (front q)) (\<lambda>item.
          if front q = rear q then
            cbind (initializePageQueue mallocOk (maxSize q)) (\<lambda>q'. Ret (item, q'))
          else
            cbind (cmod (front q + 1) (maxSize q)) (\<lambda>f. Ret (item, q\<lparr>front := f\<rparr>))))"

text \<open>The search loop, with as much fuel as the buffer has cells.\<close>

fun findLoop :: "nat \<Rightarrow> PageQueue \<Rightarrow> int \<Rightarrow> int \<Rightarrow> int cres" where
  "findLoop 0 q v i = Diverge"
| "findLoop (Suc k) q v i =
     cbind (agetv (items q) i) (\<lambda>x.
       if x = v then Ret i
       else if i = rear q then Ret (-1)
       else cbind (cmod (i + 1) (maxSize q)) (\<lambda>i'. findLoop k q v i'))"

definition findPositionInQueue :: "PageQueue \<Rightarrow> int \<Rightarrow> int cres" where
  "findPositionInQueue q v =
     (if front q = -1 then Ret (-1) else findLoop (nat (maxSize q)) q v (front q))"

text \<open>The loop that moves the elements behind a position one cell forward.\<close>

fun shiftLoop :: "nat \<Rightarrow> PageQueue \<Rightarrow> int \<Rightarrow> PageQueue cres" where
  "shiftLoop k q i =
     (if i = rear q then Ret q
      else case k of 0 \<Rightarrow> Diverge
      | Suc k' \<Rightarrow>
          cbind (cmod (i + 1) (maxSize q)) (\<lambda>nxt.
          cbind (aget (items q) nxt) (\<lambda>x.
          cbind (aset (items q) i x) (\<lambda>xs.
            shiftLoop k' (q\<lparr>items := xs\<rparr>) nxt))))"

definition removeFrameFromQueue :: "PageQueue \<Rightarrow> int \<Rightarrow> PageQueue cres" where
  "removeFrameFromQueue q v =
     cbind (findPositionInQueue q v) (\<lambda>pos.
       if pos = -1 then Ret q
       else
         cbind (shiftLoop (nat (maxSize q)) q pos) (\<lambda>q1.
         cbind (aset (items q1) (rear q1) (Some (-1))) (\<lambda>xs.
         cbind (cmod (rear q1 - 1 + maxSize q1) (maxSize q1)) (\<lambda>r.
           let q2 = q1\<lparr>items := xs, rear := r\<rparr> in
           if rear q2 = front q2 then Ret (q2\<lparr>front := -1, rear := -1\<rparr>) else Ret q2))))"

declare shiftLoop.simps [simp del]

subsection \<open>The list a buffer represents\<close>

definition qrep :: "PageQueue \<Rightarrow> int list \<Rightarrow> bool" where
  "qrep q xs \<longleftrightarrow>
     0 < maxSize q \<and> length (items q) = nat (maxSize q) \<and> length xs \<le> nat (maxSize q) \<and>
     (if xs = [] then front q = -1 \<and> rear q = -1
      else 0 \<le> front q \<and> front q < maxSize q \<and>
           rear q = (front q + int (length xs) - 1) mod maxSize q \<and>
           (\<forall>k < length xs. items q ! ((nat (front q) + k) mod nat (maxSize q)) = Some (xs ! k)))"

lemma qrep_Nil: "qrep q [] \<longleftrightarrow>
    0 < maxSize q \<and> length (items q) = nat (maxSize q) \<and> front q = -1 \<and> rear q = -1"
  by (auto simp: qrep_def)

lemma qrep_length: "qrep q xs \<Longrightarrow> length xs \<le> nat (maxSize q)"
  by (simp add: qrep_def)

lemma qrep_empty_iff: "qrep q xs \<Longrightarrow> front q = -1 \<longleftrightarrow> xs = []"
  by (auto simp: qrep_def split: if_splits)

text \<open>The same relation on natural numbers: capacity \<open>n\<close>, front \<open>f\<close>.\<close>

lemma qrep_natE:
  assumes "qrep q xs" and "xs \<noteq> []"
  obtains n f where "maxSize q = int n" and "0 < n" and "front q = int f" and "f < n"
    and "length (items q) = n" and "length xs \<le> n"
    and "rear q = int ((f + length xs - 1) mod n)"
    and "\<forall>k < length xs. items q ! ((f + k) mod n) = Some (xs ! k)"
proof -
  from assms have b: "0 < maxSize q" "0 \<le> front q" "front q < maxSize q"
    "length (items q) = nat (maxSize q)" "length xs \<le> nat (maxSize q)"
    and r: "rear q = (front q + int (length xs) - 1) mod maxSize q"
    and it: "\<forall>k < length xs. items q ! ((nat (front q) + k) mod nat (maxSize q)) = Some (xs ! k)"
    by (simp_all only: qrep_def if_False) blast
  from b obtain n f where n: "maxSize q = int n" and f: "front q = int f"
    by (meson less_imp_le zero_le_imp_eq_int)
  have "front q + int (length xs) - 1 = int (f + length xs - 1)"
    using assms(2) f by (cases xs) simp_all
  with r n have "rear q = int ((f + length xs - 1) mod n)" by (simp only: zmod_int)
  then show thesis using n f b it that [of n f] by simp
qed

lemma qrep_natI:
  assumes "maxSize q = int n" and "0 < n" and "front q = int f" and "f < n"
    and "length (items q) = n" and "length xs \<le> n" and "xs \<noteq> []"
    and "rear q = int ((f + length xs - 1) mod n)"
    and "\<forall>k < length xs. items q ! ((f + k) mod n) = Some (xs ! k)"
  shows "qrep q xs"
proof -
  have "int f + int (length xs) - 1 = int (f + length xs - 1)"
    using assms(7) by (cases xs) auto
  with assms(1,3,8) have "rear q = (front q + int (length xs) - 1) mod maxSize q"
    by (simp only: zmod_int)
  with assms show ?thesis by (simp only: qrep_def if_False) simp
qed

subsection \<open>Every operation refines its list counterpart\<close>

lemma initialize_qrep:
  "0 < m \<Longrightarrow> initializePageQueue True m = Ret q \<Longrightarrow> qrep q []"
  by (auto simp: initializePageQueue_def qrep_Nil)

lemma isEmpty_qrep: "qrep q xs \<Longrightarrow> isEmpty q \<longleftrightarrow> xs = []"
  by (simp add: isEmpty_def qrep_empty_iff)

lemma next_index:
  fixes f L n :: nat
  assumes "0 < L"
  shows "Suc ((f + L - Suc 0) mod n) mod n = (f + L) mod n"
  using assms by (simp add: mod_Suc_eq)

lemma next_rear:
  fixes f L n :: nat
  assumes "0 < L"
  shows "(int ((f + L - Suc 0) mod n) + 1) mod int n = int ((f + L) mod n)"
proof -
  have "int (Suc ((f + L - Suc 0) mod n) mod n) = int ((f + L) mod n)"
    by (simp only: next_index [OF assms])
  then show ?thesis by (simp only: zmod_int of_nat_Suc add.commute)
qed

lemma isFull_qrep: 
  assumes "qrep q xs"
  shows "isFull q = Ret (length xs = nat (maxSize q))"
proof (cases "xs = []")
  case True
  with assms show ?thesis by (auto simp: isFull_def qrep_Nil)
next
  case False
  with assms obtain n f where q: "maxSize q = int n" "0 < n" "front q = int f" "f < n"
    "length xs \<le> n" "rear q = int ((f + length xs - 1) mod n)"
    by (elim qrep_natE)
  have "(f + length xs) mod n = f \<longleftrightarrow> length xs = n"
    using q False mod_shift_inj [of "length xs" n 0 f]
    by (cases "length xs = n") auto
  moreover have "cmod (rear q + 1) (maxSize q) = Ret (int ((f + length xs) mod n))"
    using q False by (simp add: next_rear)
  ultimately show ?thesis using q by (simp add: isFull_def)
qed

lemma enqueue_full: "qrep q xs \<Longrightarrow> length xs = nat (maxSize q) \<Longrightarrow> enqueue q v = Ret (-1, q)"
  by (simp add: enqueue_def isFull_qrep)

lemma enqueue_qrep:
  assumes "qrep q xs" and "length xs < nat (maxSize q)"
  shows "\<exists>q'. enqueue q v = Ret (0, q') \<and> qrep q' (xs @ [v]) \<and> maxSize q' = maxSize q"
proof (cases "xs = []")
  case True
  with assms have q: "0 < maxSize q" "length (items q) = nat (maxSize q)" "front q = -1" "rear q = -1"
    by (auto simp: qrep_Nil)
  then have "enqueue q v = Ret (0, q\<lparr>front := 0, rear := 0, items := (items q)[0 := Some v]\<rparr>)"
    using assms by (simp add: enqueue_def isFull_qrep)
  moreover have "qrep (q\<lparr>front := 0, rear := 0, items := (items q)[0 := Some v]\<rparr>) (xs @ [v])"
    using q True by (auto simp: qrep_def)
  ultimately show ?thesis by auto
next
  case False
  with assms obtain n f where q: "maxSize q = int n" "0 < n" "front q = int f" "f < n"
    "length (items q) = n" "length xs \<le> n" "rear q = int ((f + length xs - 1) mod n)"
    and it: "\<forall>k < length xs. items q ! ((f + k) mod n) = Some (xs ! k)"
    by (elim qrep_natE)
  let ?r = "(f + length xs) mod n"
  let ?q = "q\<lparr>rear := int ?r, items := (items q)[?r := Some v]\<rparr>"
  have "cmod (rear q + 1) (maxSize q) = Ret (int ?r)"
    using q False by (simp add: next_rear)
  then have "enqueue q v = Ret (0, ?q)"
    using assms q by (simp add: enqueue_def isFull_qrep)
  moreover have "qrep ?q (xs @ [v])"
  proof (rule qrep_natI [of _ n f])
    have "(f + k) mod n \<noteq> ?r" if "k < length xs" for k
      using that mod_shift_inj [of k n "length xs" f] assms(2) q by auto
    then show "\<forall>k < length (xs @ [v]). items ?q ! ((f + k) mod n) = Some ((xs @ [v]) ! k)"
      using q it by (auto simp: nth_append less_Suc_eq nth_list_update_neq [OF not_sym])
  qed (use q assms in auto)
  ultimately show ?thesis by auto
qed

lemma enqueue_front:
  "enqueue q v = Ret (r, q') \<Longrightarrow> front q' = (if r = 0 \<and> front q = -1 then 0 else front q)"
  by (auto simp: enqueue_def Let_def cbind_Ret_iff split: if_splits)

lemma dequeue_empty: "qrep q [] \<Longrightarrow> dequeue mok q = Ret (-1, q)"
  by (simp add: dequeue_def isEmpty_qrep)

lemma dequeue_qrep:
  assumes "qrep q (x # xs)" and "mok \<or> xs \<noteq> []"
  shows "\<exists>q'. dequeue mok q = Ret (x, q') \<and> qrep q' xs \<and> maxSize q' = maxSize q"
proof -
  from assms(1) obtain n f where q: "maxSize q = int n" "0 < n" "front q = int f" "f < n"
    "length (items q) = n" "length (x # xs) \<le> n" "rear q = int ((f + length (x # xs) - 1) mod n)"
    and it: "\<forall>k < length (x # xs). items q ! ((f + k) mod n) = Some ((x # xs) ! k)"
    by (rule qrep_natE) simp
  have ne: "\<not> isEmpty q" using assms(1) by (simp add: isEmpty_qrep)
  have hd: "agetv (items q) (front q) = Ret x"
    using it q by force
  have last: "front q = rear q \<longleftrightarrow> xs = []"
    using q mod_shift_inj [of "length xs" n 0 f] by (cases xs) auto
  show ?thesis
  proof (cases "xs = []")
    case True
    then show ?thesis
      using ne hd last q assms(2) by (auto simp: dequeue_def initializePageQueue_def qrep_Nil)
  next
    case False
    let ?q = "q\<lparr>front := int ((f + 1) mod n)\<rparr>"
    have "dequeue mok q = Ret (x, ?q)"
      using ne hd last q False cmod_nat [of n "f + 1"] by (simp add: dequeue_def add.commute)
    moreover have "qrep ?q xs"
    proof (rule qrep_natI [of _ n "(f + 1) mod n"])
      show "rear ?q = int (((f + 1) mod n + length xs - 1) mod n)"
        using q False mod_add_left_eq [of "f + 1" n "length xs - 1"] by (cases xs) auto
      show "\<forall>k < length xs. items ?q ! (((f + 1) mod n + k) mod n) = Some (xs ! k)"
        using it by (force simp: mod_add_left_eq)
    qed (use q False in auto)
    ultimately show ?thesis by auto
  qed
qed

subsection \<open>Search and removal\<close>

lemma findLoop_from:
  assumes "qrep q xs" and "j < length xs" and "maxSize q = int n" and "front q = int f"
    and "length xs - j \<le> k" and "\<forall>i < j. xs ! i \<noteq> v"
  shows "findLoop k q v (int ((f + j) mod n)) =
    Ret (if v \<in> set xs then int ((f + length (takeWhile (\<lambda>x. x \<noteq> v) xs)) mod n) else -1)"
  using assms
proof (induction k arbitrary: j)
  case 0
  then show ?case by simp
next
  case (Suc k)
  from Suc.prems have ne: "xs \<noteq> []" by auto
  from Suc.prems(1,3,4) ne have q: "0 < n" "f < n" "length (items q) = n" "length xs \<le> n"
    "rear q = int ((f + length xs - 1) mod n)"
    and it: "\<forall>k < length xs. items q ! ((f + k) mod n) = Some (xs ! k)"
    by (auto elim!: qrep_natE)
  have x: "agetv (items q) (int ((f + j) mod n)) = Ret (xs ! j)"
    using q it Suc.prems(2) by simp
  have lt: "j < n" "length xs - 1 < n" using q Suc.prems(2) by auto
  have fin: "int ((f + j) mod n) = rear q \<longleftrightarrow> Suc j = length xs"
    using q lt mod_shift_inj [of j n "length xs - 1" f] ne by (cases xs) auto
  have nxt: "cmod (int ((f + j) mod n) + 1) (maxSize q) = Ret (int ((f + Suc j) mod n))"
    using q Suc.prems(3) next_rear [of "Suc j" f n] by simp
  show ?case
  proof (cases "xs ! j = v")
    case True
    then have "takeWhile (\<lambda>x. x \<noteq> v) xs = take j xs"
      using Suc.prems(2,6) by (intro takeWhile_eq_take_P_nth) auto
    with True x Suc.prems(2) show ?thesis by auto
  next
    case False
    with Suc.prems(6) have all: "\<forall>i < Suc j. xs ! i \<noteq> v" by (simp add: less_Suc_eq)
    show ?thesis
    proof (cases "Suc j = length xs")
      case True
      with all have "v \<notin> set xs" by (auto simp: in_set_conv_nth)
      with True False x fin show ?thesis by simp
    next
      case j: False
      with Suc.prems(2) have "Suc j < length xs" by simp
      then have "findLoop k q v (int ((f + Suc j) mod n)) =
        Ret (if v \<in> set xs then int ((f + length (takeWhile (\<lambda>x. x \<noteq> v) xs)) mod n) else -1)"
        using Suc.prems all by (intro Suc.IH) auto
      with False x fin nxt j show ?thesis by simp
    qed
  qed
qed

lemma findPosition_qrep:
  assumes "qrep q xs"
  shows "findPositionInQueue q v =
    Ret (if v \<in> set xs
         then (front q + int (length (takeWhile (\<lambda>x. x \<noteq> v) xs))) mod maxSize q else -1)"
proof (cases "xs = []")
  case True
  with assms show ?thesis by (simp add: findPositionInQueue_def qrep_empty_iff)
next
  case False
  with assms obtain n f where q: "maxSize q = int n" "front q = int f" "f < n" "length xs \<le> n"
    by (elim qrep_natE)
  then have "findLoop n q v (int ((f + 0) mod n)) =
    Ret (if v \<in> set xs then int ((f + length (takeWhile (\<lambda>x. x \<noteq> v) xs)) mod n) else -1)"
    using assms False by (intro findLoop_from) auto
  with q show ?thesis by (simp add: findPositionInQueue_def zmod_int)
qed

text \<open>Shifting from position \<open>j\<close> on overwrites the element there and repeats the last one.\<close>

definition shifted :: "'a list \<Rightarrow> nat \<Rightarrow> 'a list" where
  "shifted xs j = take j xs @ drop (Suc j) xs @ [last xs]"

lemma shiftLoop_from:
  assumes "qrep q xs" and "j < length xs" and "maxSize q = int n" and "front q = int f"
    and "length xs - 1 - j \<le> k"
  shows "\<exists>its. shiftLoop k q (int ((f + j) mod n)) = Ret (q\<lparr>items := its\<rparr>) \<and>
           qrep (q\<lparr>items := its\<rparr>) (shifted xs j)"
  using assms
proof (induction "length xs - 1 - j" arbitrary: j k q xs)
  case 0
  then have j: "j = length xs - 1" and ne: "xs \<noteq> []" by auto
  with 0 have "int ((f + j) mod n) = rear q" by (auto elim!: qrep_natE simp: Suc_le_eq)
  moreover have "shifted xs j = xs"
    using j ne append_butlast_last_id [OF ne] by (simp add: shifted_def butlast_conv_take)
  ultimately show ?case using 0
    by (intro exI [of _ "items q"]) (simp add: shiftLoop.simps)
next
  case (Suc d)
  then have ne: "xs \<noteq> []" and j: "Suc j < length xs" by auto
  from Suc.prems(1,3,4) ne have q: "0 < n" "f < n" "length (items q) = n" "length xs \<le> n"
    "rear q = int ((f + length xs - 1) mod n)"
    and it: "\<forall>k < length xs. items q ! ((f + k) mod n) = Some (xs ! k)"
    by (auto elim!: qrep_natE)
  let ?i = "(f + j) mod n" and ?nx = "(f + Suc j) mod n"
  let ?q = "q\<lparr>items := (items q)[?i := Some (xs ! Suc j)]\<rparr>"
  let ?xs = "xs[j := xs ! Suc j]"
  have fin: "int ?i \<noteq> rear q"
    using q j mod_shift_inj [of j n "length xs - 1" f] by (cases xs) auto
  have nxt: "cmod (int ?i + 1) (maxSize q) = Ret (int ?nx)"
    using q Suc.prems(3) next_rear [of "Suc j" f n] by simp
  have rep: "qrep ?q ?xs"
  proof (rule qrep_natI [of _ n f])
    have "?i \<noteq> (f + k) mod n" if "k < length xs" "k \<noteq> j" for k
      using that mod_shift_inj [of k n j f] j q by auto
    then show "\<forall>k < length ?xs. items ?q ! ((f + k) mod n) = Some (?xs ! k)"
      using q it j by (auto simp: nth_list_update)
  qed (use q Suc.prems ne in auto)
  obtain k' where k: "k = Suc k'" using Suc.hyps(2) Suc.prems(5) by (cases k) auto
  have "items q ! ?nx = Some (xs ! Suc j)" using it j by blast
  then have "shiftLoop k q (int ?i) = shiftLoop k' ?q (int ?nx)"
    using fin nxt q by (subst shiftLoop.simps) (simp add: k)
  moreover have "\<exists>its. shiftLoop k' ?q (int ?nx) = Ret (?q\<lparr>items := its\<rparr>) \<and>
      qrep (?q\<lparr>items := its\<rparr>) (shifted ?xs (Suc j))"
    using Suc.hyps(2) Suc.prems j k by (intro Suc.hyps(1) [OF _ rep]) auto
  moreover have "last ?xs = last xs"
    using j ne by (cases xs rule: rev_cases) (auto simp: nth_append list_update_append)
  then have "shifted ?xs (Suc j) = shifted xs j"
    using j by (simp add: shifted_def take_Suc_conv_app_nth Cons_nth_drop_Suc)
  ultimately show ?case by auto
qed

lemma takeWhile_split:
  assumes "v \<in> set xs"
  shows "length (takeWhile (\<lambda>x. x \<noteq> v) xs) < length xs"
    and "take (length xs - 1) (shifted xs (length (takeWhile (\<lambda>x. x \<noteq> v) xs))) = remove1 v xs"
proof -
  obtain ys zs where xs: "xs = ys @ v # zs" "v \<notin> set ys" using split_list_first [OF assms] by blast
  then have tw: "takeWhile (\<lambda>x. x \<noteq> v) xs = ys"
    unfolding xs(1) by (subst takeWhile_append2) auto
  show "length (takeWhile (\<lambda>x. x \<noteq> v) xs) < length xs" using tw xs by simp
  show "take (length xs - 1) (shifted xs (length (takeWhile (\<lambda>x. x \<noteq> v) xs))) = remove1 v xs"
    using tw xs by (simp add: shifted_def remove1_append)
qed

text \<open>
  What removal does before its final test: the buffer with the element gone and \<open>rear\<close>
  moved back. The test \<open>rear == front\<close> then asks whether two elements were left, not
  whether the queue has become empty.
\<close>

lemma remove_steps:
  assumes "qrep q xs" and "v \<in> set xs" and "maxSize q = int n" and "front q = int f"
  shows "\<exists>its. length its = n \<and>
    (\<forall>k < length xs - 1. its ! ((f + k) mod n) = Some (remove1 v xs ! k)) \<and>
    removeFrameFromQueue q v =
      (let q2 = q\<lparr>items := its, rear := int ((f + length xs + n - 2) mod n)\<rparr>
       in if rear q2 = front q2 then Ret (q2\<lparr>front := -1, rear := -1\<rparr>) else Ret q2)"
proof -
  let ?j = "length (takeWhile (\<lambda>x. x \<noteq> v) xs)"
  from assms(2) have ne: "xs \<noteq> []" by auto
  from assms ne have q: "0 < n" "f < n" "length (items q) = n" "length xs \<le> n"
    "rear q = int ((f + length xs - 1) mod n)" by (auto elim!: qrep_natE)
  have pos: "findPositionInQueue q v = Ret (int ((f + ?j) mod n))"
    using findPosition_qrep [OF assms(1), of v] assms(2-4) by (simp add: zmod_int)
  obtain its0 where sh: "shiftLoop n q (int ((f + ?j) mod n)) = Ret (q\<lparr>items := its0\<rparr>)"
    and rep: "qrep (q\<lparr>items := its0\<rparr>) (shifted xs ?j)"
    using shiftLoop_from [OF assms(1) takeWhile_split(1) [OF assms(2)] assms(3,4), of n] q(4)
    by (meson diff_le_self le_trans)
  let ?r = "(f + length xs - 1) mod n"
  let ?its = "its0[?r := Some (-1)]"
  have len: "length its0 = n" and
    it0: "\<forall>k < length xs. its0 ! ((f + k) mod n) = Some (shifted xs ?j ! k)"
    using rep ne assms(3,4) takeWhile_split(1) [OF assms(2)]
    by (auto elim!: qrep_natE simp: shifted_def)
  have neq: "?r \<noteq> (f + k) mod n" if "k < length xs - 1" for k
    using that q ne mod_shift_inj [of k n "length xs - 1" f] by (cases xs) auto
  have nth: "shifted xs ?j ! k = remove1 v xs ! k" if "k < length xs - 1" for k
    using that by (simp flip: takeWhile_split(2) [OF assms(2)])
  have items: "\<forall>k < length xs - 1. ?its ! ((f + k) mod n) = Some (remove1 v xs ! k)"
    using it0 neq nth by (simp add: nth_list_update_neq)
  let ?r' = "f + length xs + n - 2"
  have "f + length xs - 1 + (n - 1) = ?r'" using q ne by (cases xs) auto
  then have "((f + length xs - 1) mod n + (n - 1)) mod n = ?r' mod n"
    by (simp only: mod_add_left_eq)
  moreover have "rear q - 1 + maxSize q = int ((f + length xs - 1) mod n + (n - 1))"
    using q assms(3) by simp
  ultimately have "(rear q - 1 + maxSize q) mod maxSize q = int (?r' mod n)"
    using assms(3) by (simp only: flip: zmod_int)
  then have "cmod (rear q - 1 + maxSize q) (maxSize q) = Ret (int (?r' mod n))"
    using q assms(3) by simp
  with pos sh q len assms(3) have "removeFrameFromQueue q v =
      (let q2 = q\<lparr>items := ?its, rear := int (?r' mod n)\<rparr>
       in if rear q2 = front q2 then Ret (q2\<lparr>front := -1, rear := -1\<rparr>) else Ret q2)"
    by (simp add: removeFrameFromQueue_def Let_def)
  with len items show ?thesis by (intro exI [of _ ?its]) simp
qed

lemma remove_absent: "qrep q xs \<Longrightarrow> v \<notin> set xs \<Longrightarrow> removeFrameFromQueue q v = Ret q"
  by (simp add: removeFrameFromQueue_def findPosition_qrep)

lemma remove_qrep:
  assumes "qrep q xs" and "v \<in> set xs" and "3 \<le> length xs"
  shows "\<exists>q'. removeFrameFromQueue q v = Ret q' \<and> qrep q' (remove1 v xs) \<and>
           maxSize q' = maxSize q \<and> front q' = front q"
proof -
  from assms have ne: "xs \<noteq> []" by auto
  with assms(1) obtain n f where q: "maxSize q = int n" "0 < n" "front q = int f" "f < n"
    "length xs \<le> n" by (elim qrep_natE)
  from remove_steps [OF assms(1,2) q(1,3)] obtain its where its: "length its = n"
    "\<forall>k < length xs - 1. its ! ((f + k) mod n) = Some (remove1 v xs ! k)"
    and rm: "removeFrameFromQueue q v =
      (let q2 = q\<lparr>items := its, rear := int ((f + length xs + n - 2) mod n)\<rparr>
       in if rear q2 = front q2 then Ret (q2\<lparr>front := -1, rear := -1\<rparr>) else Ret q2)"
    by blast
  have "f + length xs + n - 2 = f + (length xs - 2) + n" using assms(3) by simp
  then have r: "(f + length xs + n - 2) mod n = (f + (length xs - 2)) mod n"
    by (simp only: mod_add_self2)
  have "length xs - 2 < n" "length xs - 2 \<noteq> 0" using q assms(3) by linarith+
  then have "(f + (length xs - 2)) mod n \<noteq> f"
    using mod_shift_inj [of "length xs - 2" n 0 f] q by auto
  moreover have len: "length (remove1 v xs) = length xs - 1"
    using assms(2) by (simp add: length_remove1)
  moreover have "qrep (q\<lparr>items := its, rear := int ((f + (length xs - 2)) mod n)\<rparr>) (remove1 v xs)"
    using q its len assms(3)
    by (intro qrep_natI [of _ n f]) (auto simp: numeral_2_eq_2 simp flip: length_greater_0_conv)
  ultimately show ?thesis using rm r q(3) by (simp add: Let_def)
qed

text \<open>Removing one of two elements leaves a buffer that says it is empty.\<close>

lemma remove_two:
  assumes "qrep q [x, y]" and "v \<in> {x, y}"
  shows "\<exists>q'. removeFrameFromQueue q v = Ret q' \<and> qrep q' []"
proof -
  from assms(1) obtain n f where q: "maxSize q = int n" "0 < n" "front q = int f" "f < n"
    by (rule qrep_natE) auto
  from remove_steps [OF assms(1) _ q(1,3), of v] assms(2) obtain its where "length its = n"
    and rm: "removeFrameFromQueue q v =
      (let q2 = q\<lparr>items := its, rear := int ((f + length [x, y] + n - 2) mod n)\<rparr>
       in if rear q2 = front q2 then Ret (q2\<lparr>front := -1, rear := -1\<rparr>) else Ret q2)"
    by auto
  then show ?thesis using q by (simp add: Let_def qrep_Nil)
qed

text \<open>Removing the only element of a larger buffer leaves one that refuses every element.\<close>

lemma remove_one:
  assumes "qrep q [v]" and "1 < maxSize q"
  shows "\<exists>q'. removeFrameFromQueue q v = Ret q' \<and> (\<forall>w. enqueue q' w = Ret (-1, q'))"
proof -
  from assms(1) obtain n f where q: "maxSize q = int n" "0 < n" "front q = int f" "f < n"
    by (rule qrep_natE) auto
  from remove_steps [OF assms(1) _ q(1,3), of v] obtain its where "length its = n"
    and rm: "removeFrameFromQueue q v =
      (let q2 = q\<lparr>items := its, rear := int ((f + length [v] + n - 2) mod n)\<rparr>
       in if rear q2 = front q2 then Ret (q2\<lparr>front := -1, rear := -1\<rparr>) else Ret q2)"
    by auto
  have r: "f + length [v] + n - 2 = f + (n - 1)" using q by simp
  have "(f + (n - 1)) mod n \<noteq> f"
    using mod_shift_inj [of "n - 1" n 0 f] q assms(2) by auto
  moreover have "((f + (n - 1)) mod n + 1) mod n = f"
    using q by (simp add: mod_Suc_eq)
  then have "(int ((f + (n - 1)) mod n) + 1) mod int n = int f"
    by (metis of_nat_1 of_nat_add of_nat_mod)
  ultimately show ?thesis
    using rm q by (simp add: Let_def r enqueue_def isFull_def)
qed

subsection \<open>The interface the replacement algorithms rely on\<close>

locale bounded_fifo =
  fixes rep :: "'q \<Rightarrow> int list \<Rightarrow> bool" and cap :: "'q \<Rightarrow> nat"
    and enq :: "'q \<Rightarrow> int \<Rightarrow> (int \<times> 'q) cres" and deq :: "'q \<Rightarrow> (int \<times> 'q) cres"
  assumes rep_cap: "rep q xs \<Longrightarrow> length xs \<le> cap q"
    and enq_room: "rep q xs \<Longrightarrow> length xs < cap q \<Longrightarrow>
      \<exists>q'. enq q v = Ret (0, q') \<and> rep q' (xs @ [v]) \<and> cap q' = cap q"
    and enq_full: "rep q xs \<Longrightarrow> length xs = cap q \<Longrightarrow> enq q v = Ret (-1, q)"
    and deq_none: "rep q [] \<Longrightarrow> deq q = Ret (-1, q)"
    and deq_some: "rep q (x # y # ys) \<Longrightarrow>
      \<exists>q'. deq q = Ret (x, q') \<and> rep q' (y # ys) \<and> cap q' = cap q"
begin

text \<open>Taking the oldest element out and putting any element in keeps the length.\<close>

lemma recycle:
  assumes "rep q (x # y # ys)"
  shows "\<exists>q1 q2. deq q = Ret (x, q1) \<and> rep q1 (y # ys) \<and> enq q1 v = Ret (0, q2) \<and>
           rep q2 (y # ys @ [v]) \<and> cap q2 = cap q"
proof -
  from deq_some [OF assms] obtain q1 where q1: "deq q = Ret (x, q1)" "rep q1 (y # ys)" "cap q1 = cap q"
    by blast
  moreover have "length (y # ys) < cap q1" using rep_cap [OF assms] q1(3) by simp
  ultimately show ?thesis using enq_room [of q1 "y # ys" v] by auto
qed

end

interpretation ring: bounded_fifo qrep "\<lambda>q. nat (maxSize q)" enqueue "dequeue mok" for mok
proof unfold_locales
  fix q xs v
  show "qrep q xs \<Longrightarrow> length xs \<le> nat (maxSize q)" by (rule qrep_length)
  show "qrep q xs \<Longrightarrow> length xs < nat (maxSize q) \<Longrightarrow>
      \<exists>q'. enqueue q v = Ret (0, q') \<and> qrep q' (xs @ [v]) \<and> nat (maxSize q') = nat (maxSize q)"
    using enqueue_qrep by metis
  show "qrep q xs \<Longrightarrow> length xs = nat (maxSize q) \<Longrightarrow> enqueue q v = Ret (-1, q)"
    by (rule enqueue_full)
  show "qrep q [] \<Longrightarrow> dequeue mok q = Ret (-1, q)" by (rule dequeue_empty)
next
  fix q x y ys
  show "qrep q (x # y # ys) \<Longrightarrow>
      \<exists>q'. dequeue mok q = Ret (x, q') \<and> qrep q' (y # ys) \<and> nat (maxSize q') = nat (maxSize q)"
    using dequeue_qrep by (metis list.distinct(1))
qed

subsection \<open>Any history of the buffer is a history of the list\<close>

datatype queue_op = EnqOp int | DeqOp

fun runQueue :: "queue_op list \<Rightarrow> PageQueue \<Rightarrow> (int list \<times> PageQueue) cres" where
  "runQueue [] q = Ret ([], q)"
| "runQueue (EnqOp v # ops) q =
     cbind (enqueue q v) (\<lambda>(r, q1). cbind (runQueue ops q1) (\<lambda>(rs, q2). Ret (r # rs, q2)))"
| "runQueue (DeqOp # ops) q =
     cbind (dequeue True q) (\<lambda>(r, q1). cbind (runQueue ops q1) (\<lambda>(rs, q2). Ret (r # rs, q2)))"

fun runList :: "nat \<Rightarrow> queue_op list \<Rightarrow> int list \<Rightarrow> int list \<times> int list" where
  "runList n [] xs = ([], xs)"
| "runList n (EnqOp v # ops) xs =
     (if length xs < n then (let (rs, ys) = runList n ops (xs @ [v]) in (0 # rs, ys))
      else (let (rs, ys) = runList n ops xs in (-1 # rs, ys)))"
| "runList n (DeqOp # ops) [] = (let (rs, ys) = runList n ops [] in (-1 # rs, ys))"
| "runList n (DeqOp # ops) (x # xs) = (let (rs, ys) = runList n ops xs in (x # rs, ys))"

text \<open>
  C6: the circular buffer implements a bounded first-in first-out list. From a buffer that
  represents \<open>xs\<close>, any sequence of enqueue and dequeue calls runs without undefined
  behaviour, returns the codes and elements the list would return (\<open>-1\<close> on a full or an
  empty queue), and ends in a buffer that represents the final list.
\<close>

theorem ring_refines_list:
  assumes "qrep q xs"
  shows "\<exists>q'. runQueue ops q = Ret (fst (runList (nat (maxSize q)) ops xs), q') \<and>
           qrep q' (snd (runList (nat (maxSize q)) ops xs)) \<and> maxSize q' = maxSize q"
  using assms
proof (induction "nat (maxSize q)" ops xs arbitrary: q rule: runList.induct)
  case 1
  then show ?case by simp
next
  case (2 v ops xs)
  show ?case
  proof (cases "length xs < nat (maxSize q)")
    case True
    with enqueue_qrep [OF "2.prems"] obtain q1 where q1: "enqueue q v = Ret (0, q1)"
      "qrep q1 (xs @ [v])" "maxSize q1 = maxSize q" by blast
    with "2.hyps"(1) [OF True, of q1] True show ?thesis by (auto simp: case_prod_beta)
  next
    case False
    with qrep_length [OF "2.prems"] have "enqueue q v = Ret (-1, q)"
      by (intro enqueue_full [OF "2.prems"]) simp
    with "2.hyps"(2) [OF False refl "2.prems"] False show ?thesis by (auto simp: case_prod_beta)
  qed
next
  case (3 ops)
  from "3.hyps" [OF refl "3.prems"] "3.prems" show ?case by (auto simp: case_prod_beta dequeue_empty)
next
  case (4 ops x xs)
  with dequeue_qrep [OF "4.prems", of True] obtain q1 where q1: "dequeue True q = Ret (x, q1)"
    "qrep q1 xs" "maxSize q1 = maxSize q" by blast
  with "4.hyps" [of q1] show ?case by (auto simp: case_prod_beta)
qed

text \<open>A full buffer of three cells whose contents wrap around, for the witnesses.\<close>

definition wrapped :: PageQueue where
  "wrapped = \<lparr>items = [Some 5, Some 6, Some 4], front = 2, rear = 1, maxSize = 3\<rparr>"

lemma wrapped_qrep: "qrep wrapped [4, 5, 6]"
  by code_simp

theorem ring_refines_list_witness:
  "\<exists>q'. runQueue [EnqOp 9, DeqOp, EnqOp 9] wrapped =
      Ret (fst (runList (nat (maxSize wrapped)) [EnqOp 9, DeqOp, EnqOp 9] [4, 5, 6]), q') \<and>
    qrep q' (snd (runList (nat (maxSize wrapped)) [EnqOp 9, DeqOp, EnqOp 9] [4, 5, 6])) \<and>
    maxSize q' = maxSize wrapped"
  by (rule ring_refines_list [OF wrapped_qrep])

text \<open>
  C27: removal by value. On a buffer of at least three elements \<open>removeFrameFromQueue\<close> ends
  and takes exactly the first occurrence of the value out of the list, whatever the wrap-around;
  a value that is not there leaves the buffer as it is.
\<close>

theorem removeFrame_correct:
  assumes "qrep q xs" and "3 \<le> length xs"
  shows "\<exists>q'. removeFrameFromQueue q v = Ret q' \<and> qrep q' (remove1 v xs) \<and> maxSize q' = maxSize q"
proof (cases "v \<in> set xs")
  case True
  from remove_qrep [OF assms(1) True assms(2)] show ?thesis by blast
next
  case False
  with remove_absent [OF assms(1) False] assms(1) show ?thesis by (simp add: remove1_idem)
qed

theorem removeFrame_correct_witness:
  "\<exists>q'. removeFrameFromQueue wrapped 5 = Ret q' \<and> qrep q' (remove1 5 [4, 5, 6]) \<and>
    maxSize q' = maxSize wrapped"
  by (rule removeFrame_correct [OF wrapped_qrep]) simp



end
