(* ===== verification/PageTables.thy ===== *)
theory PageTables
  imports PageQueues
begin

section \<open>Frames, page table and address table (src/4/as4.c)\<close>

text \<open>
  The data of the paging simulator and the code its four replacement algorithms share:
  the table constructors, the two look-ups that fill an output row, the page hit scan
  and the loading of a page into a frame.

  \<open>simrep s c\<close> says that the tables of \<open>s\<close> describe the cache \<open>c\<close>: \<open>c ! f\<close> is the
  page in frame \<open>f\<close>, or \<open>None\<close> for a free frame. The lemmas show what each shared step
  does to \<open>c\<close>.
\<close>

subsection \<open>Data\<close>

definition NUM_ADDRESSES :: int where
  "NUM_ADDRESSES = 5000"

record VirtualAddressInfo =
  virtualAddress :: int
  vaPageNum :: int

record PageTable =
  ptPageNum :: int
  ptFrameNum :: int
  referenceBit :: int

record PhysicalMemoryInfo =
  isOccupied :: int
  frFrameNum :: int
  physicalAddress :: int

text \<open>The arrays and the queue that every replacement function receives and updates.\<close>

record Sim =
  frames :: "PhysicalMemoryInfo list"
  vas :: "VirtualAddressInfo list"
  ptable :: "PageTable list"
  queue :: PageQueue

subsection \<open>Constructors\<close>

definition createVirtualAddressInfoArray :: "VirtualAddressInfo list" where
  "createVirtualAddressInfoArray =
     replicate (nat NUM_ADDRESSES) \<lparr>virtualAddress = -1, vaPageNum = -1\<rparr>"

definition createPageTable :: "int \<Rightarrow> PageTable list" where
  "createPageTable numPages =
     replicate (nat numPages) \<lparr>ptPageNum = -1, ptFrameNum = -1, referenceBit = 0\<rparr>"

definition createPhysicalMemoryInfoArray :: "int \<Rightarrow> PhysicalMemoryInfo list" where
  "createPhysicalMemoryInfoArray numFrames =
     replicate (nat numFrames) \<lparr>isOccupied = 0, frFrameNum = -1, physicalAddress = -1\<rparr>"

subsection \<open>Look-ups for an output row\<close>

text \<open>The first loop remembers the last matching entry; \<open>-1\<close> then indexes the table.\<close>

definition matchedPageNum :: "PageTable list \<Rightarrow> int \<Rightarrow> int \<Rightarrow> int cres" where
  "matchedPageNum pt totalPage tmpPageNum =
     cfold (\<lambda>i m. cbind (aget pt i) (\<lambda>e. Ret (if ptPageNum e = tmpPageNum then i else m)))
       (range0 totalPage) (-1)"

definition getPhysicalAddressFromVA ::
    "int \<Rightarrow> PageTable list \<Rightarrow> PhysicalMemoryInfo list \<Rightarrow> int \<Rightarrow> int \<Rightarrow> int \<Rightarrow> int cres" where
  "getPhysicalAddressFromVA va pt fs totalPage totalFrame pageSizeByte =
     cbind (cdiv va pageSizeByte) (\<lambda>tmpPageNum.
     cbind (matchedPageNum pt totalPage tmpPageNum) (\<lambda>m.
     cbind (cfor (\<lambda>i u.
         cbind (aget pt m) (\<lambda>e.
         cbind (aget fs i) (\<lambda>fr.
           Ret (if ptFrameNum e = frFrameNum fr then Stop (physicalAddress fr) else Next u))))
       (range0 totalFrame) ()) (\<lambda>c.
     case c of Stop a \<Rightarrow> Ret a | Next _ \<Rightarrow> UB)))"

definition getFrameNumFromVA :: "int \<Rightarrow> PageTable list \<Rightarrow> int \<Rightarrow> int \<Rightarrow> int cres" where
  "getFrameNumFromVA va pt totalPage pageSizeKB =
     cbind (cdiv va pageSizeKB) (\<lambda>tmpPageNum.
     cbind (cfor (\<lambda>i u.
         cbind (aget pt i) (\<lambda>e.
           Ret (if ptPageNum e = tmpPageNum then Stop (ptFrameNum e) else Next u)))
       (range0 totalPage) ()) (\<lambda>c.
     case c of Stop f \<Rightarrow> Ret f | Next _ \<Rightarrow> UB))"

subsection \<open>The page hit scan\<close>

text \<open>The page the table holds for a frame number: the last entry that names it wins.\<close>

definition pageNumFromFrame :: "PageTable list \<Rightarrow> int \<Rightarrow> int \<Rightarrow> int cres" where
  "pageNumFromFrame pt totalPage fnum =
     cfold (\<lambda>j p. cbind (aget pt j) (\<lambda>e. Ret (if ptFrameNum e = fnum then ptPageNum e else p)))
       (range0 totalPage) (-1)"

text \<open>
  The scan over all frames. It stops with the state of a hit and the page number found, or
  ends with the number of frames visited (\<open>occupiedCount\<close>).
\<close>

definition hitBody ::
    "Sim \<Rightarrow> int \<Rightarrow> int \<Rightarrow> int \<Rightarrow> int \<Rightarrow> int \<Rightarrow> int \<Rightarrow> (int, int \<times> Sim) ctl cres" where
  "hitBody s currentIndex totalPage pageSizeByte offset i occupiedCount =
     cbind (aget (frames s) i) (\<lambda>fr.
     cbind (pageNumFromFrame (ptable s) totalPage (frFrameNum fr)) (\<lambda>pg.
     if isOccupied fr = 0 then Ret (Next (occupiedCount + 1))
     else
       cbind (aget (vas s) currentIndex) (\<lambda>va.
       if vaPageNum va = pg then
         cbind (aset (frames s) i
             (fr\<lparr>isOccupied := 1, physicalAddress := i * pageSizeByte + offset\<rparr>)) (\<lambda>fs.
           Ret (Stop (pg, s\<lparr>frames := fs\<rparr>)))
       else Ret (Next (occupiedCount + 1)))))"

definition hitScan ::
    "Sim \<Rightarrow> int \<Rightarrow> int \<Rightarrow> int \<Rightarrow> int \<Rightarrow> int \<Rightarrow> (int, int \<times> Sim) ctl cres" where
  "hitScan s currentIndex totalFrame totalPage pageSizeByte offset =
     cfor (hitBody s currentIndex totalPage pageSizeByte offset) (range0 totalFrame) 0"

subsection \<open>Loading a page into a frame\<close>

definition loadPage :: "Sim \<Rightarrow> int \<Rightarrow> int \<Rightarrow> int \<Rightarrow> int \<Rightarrow> int \<Rightarrow> Sim cres" where
  "loadPage s currentIndex pageNum i pageSizeByte offset =
     cbind (aget (vas s) currentIndex) (\<lambda>va.
     cbind (aset (vas s) currentIndex (va\<lparr>vaPageNum := pageNum\<rparr>)) (\<lambda>vas'.
     cbind (aget (ptable s) pageNum) (\<lambda>e.
     cbind (aset (ptable s) pageNum (e\<lparr>ptPageNum := pageNum, ptFrameNum := i\<rparr>)) (\<lambda>pt'.
     cbind (aget (frames s) i) (\<lambda>fr.
     cbind (aset (frames s) i
         (fr\<lparr>isOccupied := 1, frFrameNum := i, physicalAddress := i * pageSizeByte + offset\<rparr>)) (\<lambda>fs'.
       Ret (s\<lparr>vas := vas', ptable := pt', frames := fs'\<rparr>)))))))"

text \<open>The scan for a frame that is still free (the source's initialisation case).\<close>

definition freeFrame :: "Sim \<Rightarrow> int \<Rightarrow> (unit, int) ctl cres" where
  "freeFrame s totalFrame =
     cfor (\<lambda>i u. cbind (aget (frames s) i) (\<lambda>fr.
         Ret (if isOccupied fr = 0 then Stop i else Next u)))
       (range0 totalFrame) ()"

text \<open>Forgetting the entries that still name a frame, except the entry of one page.\<close>

definition clearOthers :: "PageTable list \<Rightarrow> int \<Rightarrow> int \<Rightarrow> int \<Rightarrow> PageTable list cres" where
  "clearOthers pt totalPage frameNum pageNum =
     cfold (\<lambda>i pt. cbind (aget pt i) (\<lambda>e.
         if frameNum = ptFrameNum e \<and> pageNum \<noteq> ptPageNum e
         then aset pt i (e\<lparr>ptFrameNum := -1, ptPageNum := -1\<rparr>) else Ret pt))
       (range0 totalPage) pt"

subsection \<open>The cache the tables describe\<close>

definition frameOf :: "nat option list \<Rightarrow> nat \<Rightarrow> int" where
  "frameOf c p = (if Some p \<in> set c then int (length (takeWhile (\<lambda>x. x \<noteq> Some p) c)) else -1)"

definition cache_ok :: "nat \<Rightarrow> nat option list \<Rightarrow> bool" where
  "cache_ok m c \<longleftrightarrow> (\<forall>p \<in> Option.these (set c). p < m) \<and>
     distinct (filter (\<lambda>x. x \<noteq> None) c)"

definition simrep :: "Sim \<Rightarrow> nat option list \<Rightarrow> bool" where
  "simrep s c \<longleftrightarrow>
     cache_ok (length (ptable s)) c \<and> length (frames s) = length c \<and>
     (\<forall>f < length c.
        isOccupied (frames s ! f) = (if c ! f = None then 0 else 1) \<and>
        frFrameNum (frames s ! f) = (if c ! f = None then -1 else int f)) \<and>
     (\<forall>p < length (ptable s).
        ptFrameNum (ptable s ! p) = frameOf c p \<and>
        ptPageNum (ptable s ! p) = (if Some p \<in> set c then int p else -1))"

lemma cache_ok_bound: "cache_ok m c \<Longrightarrow> Some p \<in> set c \<Longrightarrow> p < m"
  by (auto simp: cache_ok_def Option.these_def image_iff)

lemma distinct_filter_nth:
  assumes "distinct (filter P c)" and "f < length c" and "g < length c"
    and "c ! f = c ! g" and "P (c ! f)"
  shows "f = g"
  using assms
proof (induction c arbitrary: f g)
  case (Cons x c)
  then show ?case
    by (cases f; cases g) (auto split: if_splits)
qed simp

lemma cache_inj:
  assumes "cache_ok m c" and "f < length c" and "g < length c" and "c ! f = Some p" and "c ! g = Some p"
  shows "f = g"
  using assms distinct_filter_nth [of "\<lambda>x. x \<noteq> None" c f g] by (simp add: cache_ok_def)

lemma frameOf_iff:
  assumes "cache_ok m c" and "f < length c"
  shows "frameOf c p = int f \<longleftrightarrow> c ! f = Some p"
proof (cases "Some p \<in> set c")
  case True
  let ?k = "length (takeWhile (\<lambda>x. x \<noteq> Some p) c)"
  have k: "?k < length c" by (rule takeWhile_split(1) [OF True])
  then have "c ! ?k = Some p" using nth_length_takeWhile [OF k] by simp
  with True k assms show ?thesis by (auto simp: frameOf_def dest: cache_inj [OF assms(1) assms(2) k])
next
  case False
  with assms(2) show ?thesis by (auto simp: frameOf_def dest: nth_mem)
qed

lemma frameOf_ex: "Some p \<in> set c \<Longrightarrow> \<exists>f < length c. c ! f = Some p \<and> frameOf c p = int f"
  using takeWhile_split(1) [of "Some p" c] nth_length_takeWhile [of "\<lambda>x. x \<noteq> Some p" c]
  by (auto simp: frameOf_def)

lemma frameOf_absent: "Some p \<notin> set c \<Longrightarrow> frameOf c p = -1"
  by (simp add: frameOf_def)

text \<open>Putting a page that is not cached into a frame.\<close>

lemma cache_ok_update:
  assumes "cache_ok m c" and "p < m" and "Some p \<notin> set c"
  shows "cache_ok m (c[f := Some p])"
proof -
  have "distinct (filter (\<lambda>x. x \<noteq> None) (c[f := Some p]))"
    using assms(1,3) unfolding cache_ok_def
  proof (elim conjE, induction c arbitrary: f)
    case (Cons x c)
    show ?case
    proof (cases f)
      case 0
      with Cons.prems show ?thesis by (auto split: if_splits)
    next
      case (Suc g)
      moreover have "distinct (filter (\<lambda>x. x \<noteq> None) (c[g := Some p]))"
        using Cons.prems by (intro Cons.IH) (auto simp: Option.these_def split: if_splits)
      ultimately show ?thesis
        using Cons.prems set_update_subset_insert [of c g "Some p"] by (auto split: if_splits)
    qed
  qed simp
  moreover have "q < m" if "Some q \<in> set (c[f := Some p])" for q
    using that assms set_update_subset_insert [of c f "Some p"] cache_ok_bound [OF assms(1)] by auto
  ultimately show ?thesis by (auto simp: cache_ok_def Option.these_def)
qed

subsection \<open>The shared steps on the cache\<close>

lemma simrepD:
  assumes "simrep s c"
  shows "cache_ok (length (ptable s)) c" and "length (frames s) = length c"
    and "f < length c \<Longrightarrow> isOccupied (frames s ! f) = (if c ! f = None then 0 else 1)"
    and "f < length c \<Longrightarrow> frFrameNum (frames s ! f) = (if c ! f = None then -1 else int f)"
    and "p < length (ptable s) \<Longrightarrow> ptFrameNum (ptable s ! p) = frameOf c p"
    and "p < length (ptable s) \<Longrightarrow> ptPageNum (ptable s ! p) = (if Some p \<in> set c then int p else -1)"
  using assms by (simp_all add: simrep_def)

lemma pageNumFromFrame_Ret:
  "m = length pt \<Longrightarrow> \<exists>p. pageNumFromFrame pt (int m) fnum = Ret p"
  unfolding pageNumFromFrame_def by (subst cfold_select) auto

lemma pageNumFromFrame_cached:
  assumes "simrep s c" and "f < length c" and "c ! f = Some p" and "m = length (ptable s)"
  shows "pageNumFromFrame (ptable s) (int m) (int f) = Ret (int p)"
proof -
  note D = simrepD [OF assms(1)]
  have p: "p < m" "Some p \<in> set c" using assms cache_ok_bound [OF D(1)]
    by (metis nth_mem)+
  have "fold (\<lambda>j d. if ptFrameNum (ptable s ! j) = int f then ptPageNum (ptable s ! j) else d) [0..<m] (-1)
      = ptPageNum (ptable s ! p)"
    using p assms(2-4) by (intro fold_select_unique) (auto simp: D(5) frameOf_iff [OF D(1)])
  then show ?thesis unfolding pageNumFromFrame_def
    using p assms(4) by (subst cfold_select) (auto simp: D(6))
qed

text \<open>The state after a hit on frame \<open>f\<close>.\<close>

definition touch :: "Sim \<Rightarrow> nat \<Rightarrow> int \<Rightarrow> Sim" where
  "touch s f addr = s\<lparr>frames := (frames s)[f := (frames s ! f)\<lparr>isOccupied := 1, physicalAddress := addr\<rparr>]\<rparr>"

lemma hitBody_skip:
  assumes "simrep s c" and "ci < length (vas s)" and "i < length c"
    and "\<forall>p. c ! i = Some p \<longrightarrow> vaPageNum (vas s ! ci) \<noteq> int p"
  shows "hitBody s (int ci) (int (length (ptable s))) psz off (int i) n = Ret (Next (n + 1))"
proof (cases "c ! i")
  case None
  obtain pg where "pageNumFromFrame (ptable s) (int (length (ptable s))) (-1) = Ret pg"
    using pageNumFromFrame_Ret by blast
  then show ?thesis using assms None simrepD(2-4) [OF assms(1)] by (simp add: hitBody_def)
next
  case (Some q)
  then show ?thesis
    using assms simrepD(2-4) [OF assms(1)] pageNumFromFrame_cached [OF assms(1,3) Some refl]
    by (simp add: hitBody_def)
qed

lemma hitScan_hit:
  assumes "simrep s c" and "f < length c" and "c ! f = Some p" and "ci < length (vas s)"
    and "vaPageNum (vas s ! ci) = int p"
  shows "hitScan s (int ci) (int (length c)) (int (length (ptable s))) psz off =
    Ret (Stop (int p, touch s f (int f * psz + off)))"
  unfolding hitScan_def
proof (rule cfor_find [where g = "\<lambda>n. n + 1", OF _ _ assms(2)])
  fix i n assume i: "i < f"
  with assms show "hitBody s (int ci) (int (length (ptable s))) psz off (int i) n = Ret (Next (n + 1))"
    using cache_inj [OF simrepD(1) [OF assms(1)] _ assms(2) _ assms(3), of i]
    by (intro hitBody_skip [OF assms(1,4)]) auto
next
  show "hitBody s (int ci) (int (length (ptable s))) psz off (int f) (((\<lambda>n. n + 1) ^^ f) 0) =
      Ret (Stop (int p, touch s f (int f * psz + off)))"
    using assms simrepD(2-4) [OF assms(1)] pageNumFromFrame_cached [OF assms(1-3) refl]
    by (simp add: hitBody_def touch_def)
qed

lemma hitScan_miss:
  assumes "simrep s c" and "ci < length (vas s)" and "vaPageNum (vas s ! ci) = int p"
    and "Some p \<notin> set c"
  shows "hitScan s (int ci) (int (length c)) (int (length (ptable s))) psz off =
    Ret (Next (int (length c)))"
proof -
  have "cfor (hitBody s (int ci) (int (length (ptable s))) psz off) (map int [0..<length c]) 0 =
      Ret (Next (((\<lambda>n. n + 1) ^^ length c) 0))"
    using assms by (intro cfor_steps hitBody_skip) (auto dest: nth_mem)
  then show ?thesis by (simp add: hitScan_def range0_of_nat)
qed

lemma touch_simrep:
  assumes "simrep s c" and "f < length c" and "c ! f = Some p"
  shows "simrep (touch s f a) c"
  using assms by (auto simp: simrep_def touch_def nth_list_update)

lemma freeFrame_found:
  assumes "simrep s c" and "f < length c" and "c ! f = None" and "\<forall>i < f. c ! i \<noteq> None"
  shows "freeFrame s (int (length c)) = Ret (Stop (int f))"
  unfolding freeFrame_def using simrepD(2,3) [OF assms(1)] assms
  by (intro cfor_find [where g = "\<lambda>u. u", OF _ _ assms(2)]) simp_all

lemma freeFrame_none:
  assumes "simrep s c" and "None \<notin> set c"
  shows "freeFrame s (int (length c)) = Ret (Next ())"
proof -
  have "c ! i \<noteq> None" if "i < length c" for i using assms(2) that by (metis nth_mem)
  then show ?thesis unfolding freeFrame_def range0_of_nat
    using simrepD(2,3) [OF assms(1)] by (intro cfor_skip) auto
qed

lemma clearOthers_map:
  "clearOthers pt (int (length pt)) fn pn =
     Ret (map (\<lambda>e. if fn = ptFrameNum e \<and> pn \<noteq> ptPageNum e
                   then e\<lparr>ptFrameNum := -1, ptPageNum := -1\<rparr> else e) pt)"
  unfolding clearOthers_def by (rule cfold_map) simp

lemma frameOf_update:
  assumes "cache_ok m c" and "f < length c" and "p < m" and "Some p \<notin> set c"
  shows "frameOf (c[f := Some p]) q = (if q = p then int f else if c ! f = Some q then -1 else frameOf c q)"
proof -
  let ?c = "c[f := Some p]"
  have ok: "cache_ok m ?c" by (rule cache_ok_update [OF assms(1,3,4)])
  show ?thesis
  proof (cases "Some q \<in> set ?c")
    case True
    then obtain g where g: "g < length c" "?c ! g = Some q" and fo: "frameOf ?c q = int g"
      using frameOf_ex by force
    show ?thesis
    proof (cases "g = f")
      case True
      then show ?thesis using g fo assms(2) by simp
    next
      case False
      then have cg: "c ! g = Some q" using g by simp
      then have "q \<noteq> p" "c ! f \<noteq> Some q" using assms g False cache_inj [OF assms(1,2) g(1)] by (auto dest: nth_mem)
      then show ?thesis using fo cg frameOf_iff [OF assms(1) g(1), of q] by simp
    qed
  next
    case False
    then have "q \<noteq> p" using assms(2) set_update_memI [OF assms(2)] by metis
    moreover have "Some q \<notin> set c" if "c ! f \<noteq> Some q"
    proof
      assume "Some q \<in> set c"
      then obtain g where "g < length c" "c ! g = Some q" by (auto simp: in_set_conv_nth)
      with that False show False by (metis length_list_update nth_list_update_neq nth_mem)
    qed
    ultimately show ?thesis using False by (auto simp: frameOf_absent)
  qed
qed

lemma mem_update_iff:
  assumes "cache_ok m c" and "f < length c" and "p < m" and "Some p \<notin> set c"
  shows "Some q \<in> set (c[f := Some p]) \<longleftrightarrow> q = p \<or> (Some q \<in> set c \<and> c ! f \<noteq> Some q)"
proof -
  have "Some q \<in> set d \<longleftrightarrow> frameOf d q \<noteq> -1" for d by (auto simp: frameOf_def)
  then show ?thesis using frameOf_update [OF assms, of q] by auto
qed

text \<open>
  Whatever order an algorithm writes its tables in: if in the end the new page owns the
  frame, the page that was there is forgotten and every other entry is as before, then the
  tables describe the cache with that one frame changed.
\<close>

lemma simrep_replace:
  assumes "simrep s c" and "f < length c" and "p < length (ptable s)" and "Some p \<notin> set c"
    and "length (ptable s') = length (ptable s)"
    and "\<And>q. q < length (ptable s) \<Longrightarrow> ptFrameNum (ptable s' ! q) =
      (if q = p then int f else if c ! f = Some q then -1 else ptFrameNum (ptable s ! q))"
    and "\<And>q. q < length (ptable s) \<Longrightarrow> ptPageNum (ptable s' ! q) =
      (if q = p then int p else if c ! f = Some q then -1 else ptPageNum (ptable s ! q))"
    and "frames s' = (frames s)[f := (frames s ! f)\<lparr>isOccupied := 1, frFrameNum := int f, physicalAddress := a\<rparr>]"
  shows "simrep s' (c[f := Some p])"
proof -
  note D = simrepD [OF assms(1)]
  show ?thesis unfolding simrep_def
  proof (intro conjI allI impI)
    show "cache_ok (length (ptable s')) (c[f := Some p])"
      using cache_ok_update [OF D(1) assms(3,4)] assms(5) by simp
    show "length (frames s') = length (c[f := Some p])" using D(2) assms(8) by simp
  next
    fix g assume "g < length (c[f := Some p])"
    then show "isOccupied (frames s' ! g) = (if c[f := Some p] ! g = None then 0 else 1)"
      and "frFrameNum (frames s' ! g) = (if c[f := Some p] ! g = None then -1 else int g)"
      using D(2-4) assms(2,8) by (simp_all add: nth_list_update)
  next
    fix q assume q: "q < length (ptable s')"
    then show "ptFrameNum (ptable s' ! q) = frameOf (c[f := Some p]) q"
      using assms(5,6) D(5) frameOf_update [OF D(1) assms(2-4)] by simp
    show "ptPageNum (ptable s' ! q) = (if Some q \<in> set (c[f := Some p]) then int q else -1)"
      using q assms(5,7) D(6) mem_update_iff [OF D(1) assms(2-4)] by auto
  qed
qed

lemma evict_entry:
  assumes "simrep s c" and "f < length c" and "Some p \<notin> set c" and "r < length (ptable s)"
  shows "int f = ptFrameNum (ptable s ! r) \<and> ptPageNum (ptable s ! r) \<noteq> int p \<longleftrightarrow> c ! f = Some r"
proof -
  note D = simrepD [OF assms(1)]
  have "int f = ptFrameNum (ptable s ! r) \<longleftrightarrow> c ! f = Some r"
    using D(5) [OF assms(4)] frameOf_iff [OF D(1) assms(2), of r] by auto
  moreover have "ptPageNum (ptable s ! r) \<noteq> int p" if "c ! f = Some r"
  proof -
    have "Some r \<in> set c" using that assms(2) by (metis nth_mem)
    then show ?thesis using D(6) [OF assms(4)] assms(3) by auto
  qed
  ultimately show ?thesis by blast
qed

text \<open>The state \<open>loadPage\<close> returns.\<close>

definition loaded :: "Sim \<Rightarrow> nat \<Rightarrow> nat \<Rightarrow> nat \<Rightarrow> int \<Rightarrow> Sim" where
  "loaded s ci p f a = s\<lparr>
     vas := (vas s)[ci := (vas s ! ci)\<lparr>vaPageNum := int p\<rparr>],
     ptable := (ptable s)[p := (ptable s ! p)\<lparr>ptPageNum := int p, ptFrameNum := int f\<rparr>],
     frames := (frames s)[f := (frames s ! f)\<lparr>isOccupied := 1, frFrameNum := int f, physicalAddress := a\<rparr>]\<rparr>"

lemma loadPage_loaded:
  assumes "ci < length (vas s)" and "p < length (ptable s)" and "f < length (frames s)"
  shows "loadPage s (int ci) (int p) (int f) psz off = Ret (loaded s ci p f (int f * psz + off))"
  using assms by (simp add: loadPage_def loaded_def)

lemma loaded_simps [simp]:
  "vas (loaded s ci p f a) = (vas s)[ci := (vas s ! ci)\<lparr>vaPageNum := int p\<rparr>]"
  "ptable (loaded s ci p f a) = (ptable s)[p := (ptable s ! p)\<lparr>ptPageNum := int p, ptFrameNum := int f\<rparr>]"
  "frames (loaded s ci p f a) = (frames s)[f := (frames s ! f)\<lparr>isOccupied := 1, frFrameNum := int f, physicalAddress := a\<rparr>]"
  "queue (loaded s ci p f a) = queue s"
  by (simp_all add: loaded_def)

lemma touch_simps [simp]:
  "vas (touch s f a) = vas s" "ptable (touch s f a) = ptable s" "queue (touch s f a) = queue s"
  "frames (touch s f a) = (frames s)[f := (frames s ! f)\<lparr>isOccupied := 1, physicalAddress := a\<rparr>]"
  by (simp_all add: touch_def)

lemma loaded_simrep:
  assumes "simrep s c" and "f < length c" and "c ! f = None" and "p < length (ptable s)"
    and "Some p \<notin> set c"
  shows "simrep (loaded s ci p f a) (c[f := Some p])"
  using assms by (intro simrep_replace [OF assms(1,2,4,5), where a = a]) (auto simp: nth_list_update)

subsection \<open>Loading order\<close>

text \<open>\<open>order c fs\<close>: the list \<open>fs\<close> holds every occupied frame of \<open>c\<close> exactly once.\<close>

definition order :: "nat option list \<Rightarrow> nat list \<Rightarrow> bool" where
  "order c fs \<longleftrightarrow> distinct fs \<and> set fs = {f. f < length c \<and> c ! f \<noteq> None}"

lemma order_subset: "order c fs \<Longrightarrow> set fs \<subseteq> {..<length c}"
  by (auto simp: order_def)

lemma order_length: "order c fs \<Longrightarrow> length fs = card {f. f < length c \<and> c ! f \<noteq> None}"
  by (metis order_def distinct_card)

lemma order_full:
  assumes "order c fs" and "None \<notin> set c"
  shows "length fs = length c"
proof -
  have "c ! f \<noteq> None" if "f < length c" for f using assms(2) that by (metis nth_mem)
  then have "{f. f < length c \<and> c ! f \<noteq> None} = {..<length c}" by blast
  then show ?thesis using order_length [OF assms(1)] by simp
qed

lemma order_mem:
  assumes "order c fs" and "None \<notin> set c" and "f < length c"
  shows "f \<in> set fs"
proof -
  have "c ! f \<noteq> None" using assms(2,3) by (metis nth_mem)
  then show ?thesis using assms(1,3) unfolding order_def by blast
qed

lemma order_room:
  assumes "order c fs" and "None \<in> set c"
  shows "length fs < length c"
proof -
  from assms(2) obtain f where "f < length c" "c ! f = None" by (auto simp: in_set_conv_nth)
  then have "{f. f < length c \<and> c ! f \<noteq> None} \<subset> {..<length c}" by blast
  then have "card {f. f < length c \<and> c ! f \<noteq> None} < card {..<length c}"
    by (intro psubset_card_mono) auto
  then show ?thesis using order_length [OF assms(1)] by simp
qed

lemma occupied_update:
  "f < length c \<Longrightarrow> {g. g < length (c[f := Some p]) \<and> c[f := Some p] ! g \<noteq> None} =
     insert f {g. g < length c \<and> c ! g \<noteq> None}"
  by (auto simp: nth_list_update)

lemma order_load: "order c fs \<Longrightarrow> f < length c \<Longrightarrow> c ! f = None \<Longrightarrow> order (c[f := Some p]) (fs @ [f])"
  unfolding order_def by (subst occupied_update) auto

lemma order_move: "order c (f # fs) \<Longrightarrow> order (c[f := Some p]) (fs @ [f])"
  unfolding order_def by (subst occupied_update) auto

lemma order_rotate: "order c (f # fs) \<Longrightarrow> order c (fs @ [f])"
  by (auto simp: order_def)

lemma first_free:
  assumes "None \<in> set c"
  shows "\<exists>f < length c. c ! f = None \<and> (\<forall>g < f. c ! g \<noteq> None)"
proof -
  let ?P = "\<lambda>f. f < length c \<and> c ! f = None"
  from assms obtain f where "?P f" by (auto simp: in_set_conv_nth)
  then have L: "?P (LEAST f. ?P f)" by (rule LeastI)
  moreover have "\<not> ?P g" if "g < (LEAST f. ?P f)" for g using that by (rule not_less_Least)
  ultimately show ?thesis by (metis (no_types, lifting) less_trans)
qed

end
