(* ===== verification/PageRun.thy ===== *)
theory PageRun
  imports PageTables
begin

section \<open>The simulation loop and the contract of a replacement algorithm (src/4/as4.c)\<close>

text \<open>
  The skeleton the four replacement functions share (\<open>replaceWith\<close>: address split, hit
  scan, free frame, eviction), the loop of \<open>main\<close> that calls one of them for every address
  and prints a row, and the contract \<open>page_policy\<close> under which that loop is correct. Each
  replacement algorithm interprets the contract in its own theory.
\<close>

subsection \<open>What the replacement functions share\<close>

text \<open>The values \<open>main\<close> computes from the user's choices and passes along.\<close>

record Config =
  totalFrame :: int
  totalPage :: int
  pageSizeBytes :: int

text \<open>
  The common part of the four functions. Their differences are what happens after a hit,
  after a free frame has been filled, and when a page has to be evicted. A function that
  reaches its end without \<open>return\<close> gives its caller no value.
\<close>

definition replaceWith ::
    "(int \<Rightarrow> Sim \<Rightarrow> Sim cres) \<Rightarrow> (int \<Rightarrow> int \<Rightarrow> Sim \<Rightarrow> Sim cres) \<Rightarrow> (int \<Rightarrow> int \<Rightarrow> Sim \<Rightarrow> Sim cres) \<Rightarrow>
     Config \<Rightarrow> Sim \<Rightarrow> int \<Rightarrow> (int \<times> Sim) cres" where
  "replaceWith onHit onFree evict cfg s currentIndex =
     cbind (aget (vas s) currentIndex) (\<lambda>va.
     cbind (cmod (virtualAddress va) (pageSizeBytes cfg)) (\<lambda>offset.
     cbind (cdiv (virtualAddress va) (pageSizeBytes cfg)) (\<lambda>pageNum.
     cbind (aget (ptable s) pageNum) (\<lambda>_.
     cbind (hitScan s currentIndex (totalFrame cfg) (totalPage cfg) (pageSizeBytes cfg) offset) (\<lambda>c.
     case c of
       Stop (pg, s1) \<Rightarrow> cbind (onHit pg s1) (\<lambda>s2. Ret (1, s2))
     | Next occupiedCount \<Rightarrow>
         cbind (freeFrame s (totalFrame cfg)) (\<lambda>d.
         case d of
           Stop i \<Rightarrow>
             cbind (loadPage s currentIndex pageNum i (pageSizeBytes cfg) offset) (\<lambda>s1.
             cbind (onFree pageNum i s1) (\<lambda>s2. Ret (0, s2)))
         | Next _ \<Rightarrow>
             if occupiedCount = totalFrame cfg
             then cbind (evict pageNum offset s) (\<lambda>s1. Ret (0, s1))
             else UB))))))"

text \<open>The page of a frame: the first entry that names it; \<open>0\<close> when there is none.\<close>

definition pageNumforSearch :: "PageTable list \<Rightarrow> int \<Rightarrow> int \<Rightarrow> int cres" where
  "pageNumforSearch pt tp fnum =
     cbind (cfor (\<lambda>j u. cbind (aget pt j) (\<lambda>e.
         Ret (if fnum = ptFrameNum e then Stop (ptPageNum e) else Next u))) (range0 tp) ())
       (\<lambda>c. case c of Stop p \<Rightarrow> Ret p | Next _ \<Rightarrow> Ret 0)"

text \<open>Three of the functions put a loaded frame into the queue, whatever the return code.\<close>

definition enqueueFrame :: "int \<Rightarrow> Sim \<Rightarrow> Sim cres" where
  "enqueueFrame i s = cbind (enqueue (queue s) i) (\<lambda>(_, q). Ret (s\<lparr>queue := q\<rparr>))"

subsection \<open>The loop of main\<close>

record Row =
  rowNo :: int
  rowVA :: int
  rowPage :: int
  rowFrame :: int
  rowPA :: int
  rowChar :: char

record Totals =
  pageFaults :: int
  pageHits :: int
  rows :: "Row list"

definition simBody ::
    "(Sim \<Rightarrow> int \<Rightarrow> (int \<times> Sim) cres) \<Rightarrow> Config \<Rightarrow> int \<Rightarrow> Totals \<times> Sim \<Rightarrow> (Totals \<times> Sim) cres" where
  "simBody step cfg i ts =
     (case ts of (t, s) \<Rightarrow>
       cbind (step s i) (\<lambda>(result, s').
       let t' = (if result \<noteq> 0 then t\<lparr>pageHits := pageHits t + 1\<rparr>
                 else t\<lparr>pageFaults := pageFaults t + 1\<rparr>);
           pageFaultChar = (if result \<noteq> 0 then CHR ''H'' else CHR ''F'') in
       cbind (aget (vas s') i) (\<lambda>va.
       cbind (getFrameNumFromVA (virtualAddress va) (ptable s') (totalPage cfg) (pageSizeBytes cfg)) (\<lambda>fnum.
       cbind (getPhysicalAddressFromVA (virtualAddress va) (ptable s') (frames s')
                (totalPage cfg) (totalFrame cfg) (pageSizeBytes cfg)) (\<lambda>pa.
       Ret (t'\<lparr>rows := rows t' @ [\<lparr>rowNo = i + 1, rowVA = virtualAddress va, rowPage = vaPageNum va,
                rowFrame = fnum, rowPA = pa, rowChar = pageFaultChar\<rparr>]\<rparr>, s'))))))"

definition simLoop ::
    "(Sim \<Rightarrow> int \<Rightarrow> (int \<times> Sim) cres) \<Rightarrow> Config \<Rightarrow> Totals \<times> Sim \<Rightarrow> (Totals \<times> Sim) cres" where
  "simLoop step cfg ts = cfold (simBody step cfg) (range0 NUM_ADDRESSES) ts"

subsection \<open>Addresses that main has checked\<close>

text \<open>The page reference string, and what \<open>main\<close> guarantees about it before the loop.\<close>

definition trace :: "Sim \<Rightarrow> nat list" where
  "trace s = map (\<lambda>v. nat (vaPageNum v)) (vas s)"

definition va_ok :: "Config \<Rightarrow> VirtualAddressInfo \<Rightarrow> bool" where
  "va_ok cfg v \<longleftrightarrow> 0 \<le> virtualAddress v \<and> vaPageNum v = virtualAddress v div pageSizeBytes cfg \<and>
     vaPageNum v < totalPage cfg"

definition config_ok :: "Config \<Rightarrow> Sim \<Rightarrow> nat option list \<Rightarrow> bool" where
  "config_ok cfg s c \<longleftrightarrow> 0 < pageSizeBytes cfg \<and> totalFrame cfg = int (length c) \<and>
     totalPage cfg = int (length (ptable s)) \<and> 3 \<le> length c \<and> list_all (va_ok cfg) (vas s)"

lemma config_okD:
  assumes "config_ok cfg s c" and "i < length (vas s)"
  shows "0 \<le> virtualAddress (vas s ! i)"
    and "virtualAddress (vas s ! i) div pageSizeBytes cfg = int (trace s ! i)"
    and "vaPageNum (vas s ! i) = int (trace s ! i)" and "trace s ! i < length (ptable s)"
proof -
  have "va_ok cfg (vas s ! i)" using assms by (simp add: config_ok_def list_all_length)
  then show "0 \<le> virtualAddress (vas s ! i)"
    and "virtualAddress (vas s ! i) div pageSizeBytes cfg = int (trace s ! i)"
    and "vaPageNum (vas s ! i) = int (trace s ! i)" and "trace s ! i < length (ptable s)"
    using assms by (auto simp: va_ok_def trace_def config_ok_def nat_less_iff pos_imp_zdiv_nonneg_iff)
qed

text \<open>Physical address of an access: frame number and offset.\<close>

definition physOf :: "Config \<Rightarrow> Sim \<Rightarrow> nat \<Rightarrow> nat \<Rightarrow> int" where
  "physOf cfg s i f = int f * pageSizeBytes cfg + virtualAddress (vas s ! i) mod pageSizeBytes cfg"

subsection \<open>The three cases of an access\<close>

lemma config_cfg:
  assumes "config_ok cfg s c"
  shows "0 < pageSizeBytes cfg" and "totalFrame cfg = int (length c)"
    and "totalPage cfg = int (length (ptable s))" and "3 \<le> length c"
  using assms by (simp_all add: config_ok_def)

lemma replaceWith_hit:
  assumes "simrep s c" and "config_ok cfg s c" and "i < length (vas s)"
    and "f < length c" and "c ! f = Some (trace s ! i)"
  shows "replaceWith onHit onFree evict cfg s (int i) =
    cbind (onHit (int (trace s ! i)) (touch s f (physOf cfg s i f))) (\<lambda>s2. Ret (1, s2))"
  using assms(3) config_okD [OF assms(2,3)] config_cfg [OF assms(2)]
    hitScan_hit [OF assms(1,4,5,3) config_okD(3) [OF assms(2,3)]]
  by (simp add: replaceWith_def physOf_def)

lemma replaceWith_free:
  assumes "simrep s c" and "config_ok cfg s c" and "i < length (vas s)"
    and "Some (trace s ! i) \<notin> set c" and "f < length c" and "c ! f = None" and "\<forall>g < f. c ! g \<noteq> None"
  shows "replaceWith onHit onFree evict cfg s (int i) =
    cbind (onFree (int (trace s ! i)) (int f) (loaded s i (trace s ! i) f (physOf cfg s i f)))
      (\<lambda>s2. Ret (0, s2))"
  using assms(3,5) config_okD [OF assms(2,3)] config_cfg [OF assms(2)] simrepD(2) [OF assms(1)]
    hitScan_miss [OF assms(1,3) config_okD(3) [OF assms(2,3)] assms(4)]
    freeFrame_found [OF assms(1,5-7)]
  by (simp add: replaceWith_def physOf_def loadPage_loaded)

lemma replaceWith_evict:
  assumes "simrep s c" and "config_ok cfg s c" and "i < length (vas s)"
    and "Some (trace s ! i) \<notin> set c" and "None \<notin> set c"
  shows "replaceWith onHit onFree evict cfg s (int i) =
    cbind (evict (int (trace s ! i)) (virtualAddress (vas s ! i) mod pageSizeBytes cfg) s)
      (\<lambda>s1. Ret (0, s1))"
  using assms(3) config_okD [OF assms(2,3)] config_cfg [OF assms(2)]
    hitScan_miss [OF assms(1,3) config_okD(3) [OF assms(2,3)] assms(4)] freeFrame_none [OF assms(1,5)]
  by (simp add: replaceWith_def)

lemma vas_rewrite:
  assumes "config_ok cfg s c" and "i < length (vas s)"
  shows "(vas s)[i := (vas s ! i)\<lparr>vaPageNum := int (trace s ! i)\<rparr>] = vas s"
  using config_okD(3) [OF assms] by (simp flip: config_okD(3) [OF assms])

subsection \<open>The row of an access\<close>

text \<open>
  Once the page of address \<open>i\<close> sits in frame \<open>f\<close> with the right physical address, the
  two look-ups return exactly these.
\<close>

definition placed :: "Config \<Rightarrow> Sim \<Rightarrow> nat \<Rightarrow> nat option list \<Rightarrow> nat \<Rightarrow> bool" where
  "placed cfg s i c f \<longleftrightarrow> simrep s c \<and> config_ok cfg s c \<and> i < length (vas s) \<and> f < length c \<and>
     c ! f = Some (trace s ! i) \<and> physicalAddress (frames s ! f) = physOf cfg s i f"

lemma placed_frame:
  assumes "placed cfg s i c f"
  shows "getFrameNumFromVA (virtualAddress (vas s ! i)) (ptable s) (totalPage cfg) (pageSizeBytes cfg) =
    Ret (int f)"
proof -
  from assms have rep: "simrep s c" and ok: "config_ok cfg s c" and i: "i < length (vas s)"
    and f: "f < length c" "c ! f = Some (trace s ! i)" by (auto simp: placed_def)
  note C = config_okD [OF ok i] config_cfg [OF ok] and D = simrepD [OF rep]
  let ?p = "trace s ! i"
  have mem: "Some ?p \<in> set c" using f by (metis nth_mem)
  have "cfor (\<lambda>k u. cbind (aget (ptable s) k) (\<lambda>e. Ret (if ptPageNum e = int ?p then Stop (ptFrameNum e) else Next u)))
      (range0 (int (length (ptable s)))) () = Ret (Stop (int f))"
    using C(4) f mem D(5,6) frameOf_iff [OF D(1) f(1)]
    by (intro cfor_find [where g = "\<lambda>u. u" and k = ?p]) auto
  with C show ?thesis by (simp add: getFrameNumFromVA_def)
qed

lemma placed_address:
  assumes "placed cfg s i c f"
  shows "getPhysicalAddressFromVA (virtualAddress (vas s ! i)) (ptable s) (frames s)
      (totalPage cfg) (totalFrame cfg) (pageSizeBytes cfg) = Ret (physOf cfg s i f)"
proof -
  from assms have rep: "simrep s c" and ok: "config_ok cfg s c" and i: "i < length (vas s)"
    and f: "f < length c" "c ! f = Some (trace s ! i)" and
    pa: "physicalAddress (frames s ! f) = physOf cfg s i f" by (auto simp: placed_def)
  note C = config_okD [OF ok i] config_cfg [OF ok] and D = simrepD [OF rep]
  let ?p = "trace s ! i"
  have mem: "Some ?p \<in> set c" using f by (metis nth_mem)
  have fo: "ptFrameNum (ptable s ! ?p) = int f" using D(5) C(4) frameOf_iff [OF D(1) f(1)] f by simp
  have "matchedPageNum (ptable s) (int (length (ptable s))) (int ?p) =
      Ret (fold (\<lambda>j d. if ptPageNum (ptable s ! j) = int ?p then int j else d) [0..<length (ptable s)] (-1))"
    unfolding matchedPageNum_def by (rule cfold_select) simp
  also have "\<dots> = Ret (int ?p)"
    using C(4) D(6) mem by (subst fold_select_unique [where k = ?p]) (auto split: if_splits)
  finally have m: "matchedPageNum (ptable s) (int (length (ptable s))) (int ?p) = Ret (int ?p)" .
  have "cfor (\<lambda>k u. cbind (aget (ptable s) (int ?p)) (\<lambda>e. cbind (aget (frames s) k) (\<lambda>fr.
        Ret (if ptFrameNum e = frFrameNum fr then Stop (physicalAddress fr) else Next u))))
      (range0 (int (length c))) () = Ret (Stop (physOf cfg s i f))"
    using C(4) f D(2,4) fo pa by (intro cfor_find [where g = "\<lambda>u. u" and k = f]) auto
  with C m show ?thesis by (simp add: getPhysicalAddressFromVA_def)
qed

lemma placed_touch:
  assumes "simrep s c" and "config_ok cfg s c" and "i < length (vas s)" and "f < length c"
    and "c ! f = Some (trace s ! i)"
  shows "placed cfg (touch s f (physOf cfg s i f)) i c f"
  using assms touch_simrep [OF assms(1,4,5)] simrepD(2) [OF assms(1)]
  by (simp add: placed_def config_ok_def trace_def physOf_def)

lemma placedI:
  assumes "simrep s' c'" and "config_ok cfg s c" and "i < length (vas s)" and "vas s' = vas s"
    and "length (ptable s') = length (ptable s)" and "length c' = length c" and "f < length c"
    and "c' ! f = Some (trace s ! i)" and "physicalAddress (frames s' ! f) = physOf cfg s i f"
  shows "placed cfg s' i c' f"
  using assms by (simp add: placed_def config_ok_def trace_def physOf_def)

lemma placed_loaded:
  assumes "simrep s c" and "config_ok cfg s c" and "i < length (vas s)" and "f < length c"
    and "c ! f = None" and "Some (trace s ! i) \<notin> set c"
  shows "placed cfg (loaded s i (trace s ! i) f (physOf cfg s i f)) i (c[f := Some (trace s ! i)]) f"
  using assms loaded_simrep [OF assms(1,4,5) config_okD(4) [OF assms(2,3)] assms(6)]
    simrepD(2) [OF assms(1)]
  by (intro placedI [OF _ assms(2,3)]) (simp_all add: vas_rewrite [OF assms(2,3)])

subsection \<open>The page of an occupied frame\<close>

lemma pageNumforSearch_cached:
  assumes "simrep s c" and "f < length c" and "c ! f = Some p"
  shows "pageNumforSearch (ptable s) (int (length (ptable s))) (int f) = Ret (int p)"
proof -
  note D = simrepD [OF assms(1)]
  have mem: "Some p \<in> set c" using assms(2,3) by (metis nth_mem)
  have p: "p < length (ptable s)" using cache_ok_bound [OF D(1) mem] .
  have eq: "int f = ptFrameNum (ptable s ! j) \<longleftrightarrow> j = p" if "j < length (ptable s)" for j
    using D(5) [OF that] frameOf_iff [OF D(1) assms(2), of j] assms(3) by auto
  have "cfor (\<lambda>j u. cbind (aget (ptable s) j) (\<lambda>e.
         Ret (if int f = ptFrameNum e then Stop (ptPageNum e) else Next u))) (range0 (int (length (ptable s)))) ()
      = Ret (Stop (int p))"
    using p eq D(6) mem by (intro cfor_find [where g = "\<lambda>u. u" and k = p]) simp_all
  then show ?thesis by (simp add: pageNumforSearch_def)
qed

lemma va_nonneg:
  assumes "config_ok cfg s c"
  shows "\<forall>v \<in> set (vas s). 0 \<le> vaPageNum v"
  using assms by (auto simp: config_ok_def list_all_iff va_ok_def pos_imp_zdiv_nonneg_iff)

subsection \<open>The frames of a queue\<close>

lemma order_pages:
  assumes "order c fs" and "map Some xs = map ((!) c) fs"
  shows "p \<in> set xs \<longleftrightarrow> Some p \<in> set c" and "length xs = length fs"
proof -
  have "Some p \<in> set (map ((!) c) fs) \<longleftrightarrow> Some p \<in> set c"
    using assms(1) by (auto simp: order_def in_set_conv_nth image_iff)
  then show "p \<in> set xs \<longleftrightarrow> Some p \<in> set c" unfolding assms(2) [symmetric] by auto
  show "length xs = length fs" using arg_cong [OF assms(2), of length] by simp
qed

lemma map_nth_update_other: "f \<notin> set fs \<Longrightarrow> map ((!) (c[f := x])) fs = map ((!) c) fs"
  by (rule map_cong) (metis nth_list_update_neq)+

lemma enqueueFrame_order:
  assumes "qrep (queue s) (map int fs)" and "length fs < nat (maxSize (queue s))"
  shows "\<exists>q. enqueueFrame (int f) s = Ret (s\<lparr>queue := q\<rparr>) \<and> qrep q (map int (fs @ [f])) \<and>
           maxSize q = maxSize (queue s)"
  using enqueue_qrep [OF assms(1), of "int f"] assms(2) by (auto simp: enqueueFrame_def)

lemma simrep_queue [simp]: "simrep (s\<lparr>queue := q\<rparr>) c = simrep s c"
  by (simp add: simrep_def)

lemma config_ok_queue [simp]: "config_ok cfg (s\<lparr>queue := q\<rparr>) c = config_ok cfg s c"
  by (simp add: config_ok_def)

lemma trace_queue [simp]: "trace (s\<lparr>queue := q\<rparr>) = trace s"
  by (simp add: trace_def)

lemma physOf_queue [simp]: "physOf cfg (s\<lparr>queue := q\<rparr>) i f = physOf cfg s i f"
  by (simp add: physOf_def)

lemma placed_queue [simp]: "placed cfg (s\<lparr>queue := q\<rparr>) i c f = placed cfg s i c f"
  by (simp add: placed_def)

subsection \<open>The state main starts the loop with\<close>

definition startSim :: "Config \<Rightarrow> VirtualAddressInfo list \<Rightarrow> PageQueue \<Rightarrow> Sim" where
  "startSim cfg vs q = \<lparr>frames = createPhysicalMemoryInfoArray (totalFrame cfg), vas = vs,
     ptable = createPageTable (totalPage cfg), queue = q\<rparr>"

definition zeroTotals :: Totals where
  "zeroTotals = \<lparr>pageFaults = 0, pageHits = 0, rows = []\<rparr>"

text \<open>What \<open>main\<close> has established when the loop begins.\<close>

definition ready :: "Config \<Rightarrow> VirtualAddressInfo list \<Rightarrow> PageQueue \<Rightarrow> bool" where
  "ready cfg vs q \<longleftrightarrow> 0 < pageSizeBytes cfg \<and> 3 \<le> totalFrame cfg \<and> 0 \<le> totalPage cfg \<and>
     list_all (va_ok cfg) vs \<and> length vs = nat NUM_ADDRESSES \<and> qrep q [] \<and> maxSize q = totalFrame cfg"

lemma ready_start:
  assumes "ready cfg vs q"
  shows "simrep (startSim cfg vs q) (replicate (nat (totalFrame cfg)) None)"
    and "config_ok cfg (startSim cfg vs q) (replicate (nat (totalFrame cfg)) None)"
    and "order (replicate (nat (totalFrame cfg)) None) []"
    and "length (vas (startSim cfg vs q)) = nat NUM_ADDRESSES"
  using assms
  by (auto simp: ready_def simrep_def startSim_def createPhysicalMemoryInfoArray_def createPageTable_def
      cache_ok_def Option.these_def frameOf_def config_ok_def order_def)

lemma startSim_simps [simp]: "vas (startSim cfg vs q) = vs" "queue (startSim cfg vs q) = q"
  by (simp_all add: startSim_def)

lemma trace_startSim: "trace (startSim cfg vs q) = map (\<lambda>v. nat (vaPageNum v)) vs"
  by (simp add: trace_def)

text \<open>A start state for the witnesses: 8 frames of 4 KB, 64 pages, one address throughout.\<close>

definition demoConfig :: Config where
  "demoConfig = \<lparr>totalFrame = 8, totalPage = 64, pageSizeBytes = 4096\<rparr>"

definition demoQueue :: PageQueue where
  "demoQueue = \<lparr>items = replicate 8 None, front = -1, rear = -1, maxSize = 8\<rparr>"

definition demoVas :: "VirtualAddressInfo list" where
  "demoVas = replicate (nat NUM_ADDRESSES) \<lparr>virtualAddress = 5000, vaPageNum = 1\<rparr>"

lemma demo_ready: "ready demoConfig demoVas demoQueue"
  by (simp add: ready_def demoConfig_def demoQueue_def demoVas_def qrep_Nil list_all_iff va_ok_def)

subsection \<open>The contract of a replacement algorithm\<close>

text \<open>
  An abstract policy is a function from the reference string, the position and a policy
  state to the outcome (hit or fault) and the next state; \<open>hitsFrom\<close> runs it.
\<close>

type_synonym 'a policy = "Config \<Rightarrow> nat list \<Rightarrow> nat \<Rightarrow> 'a \<Rightarrow> bool \<times> 'a"

fun hitsFrom :: "(nat \<Rightarrow> 'a \<Rightarrow> bool \<times> 'a) \<Rightarrow> nat list \<Rightarrow> 'a \<Rightarrow> bool list \<times> 'a" where
  "hitsFrom f [] a = ([], a)"
| "hitsFrom f (i # is) a =
     (case f i a of (h, a') \<Rightarrow> (case hitsFrom f is a' of (hs, b) \<Rightarrow> (h # hs, b)))"

definition row_ok :: "Config \<Rightarrow> Row \<Rightarrow> bool" where
  "row_ok cfg r \<longleftrightarrow> 0 \<le> rowFrame r \<and> rowFrame r < totalFrame cfg \<and>
     rowPage r = rowVA r div pageSizeBytes cfg \<and>
     rowPA r = rowFrame r * pageSizeBytes cfg + rowVA r mod pageSizeBytes cfg"

definition totals_ok :: "Config \<Rightarrow> VirtualAddressInfo list \<Rightarrow> bool list \<Rightarrow> Totals \<Rightarrow> bool" where
  "totals_ok cfg vs hs t \<longleftrightarrow>
     map rowChar (rows t) = map (\<lambda>h. if h then CHR ''H'' else CHR ''F'') hs \<and>
     map rowVA (rows t) = map virtualAddress (take (length hs) vs) \<and>
     list_all (row_ok cfg) (rows t) \<and>
     pageHits t = int (length (filter id hs)) \<and>
     pageFaults t = int (length (filter Not hs))"

locale page_policy =
  fixes step :: "Config \<Rightarrow> Sim \<Rightarrow> int \<Rightarrow> (int \<times> Sim) cres"
    and rel :: "Config \<Rightarrow> nat \<Rightarrow> Sim \<Rightarrow> 'a \<Rightarrow> bool"
    and policy :: "'a policy"
  assumes step_sim: "rel cfg i s a \<Longrightarrow> i < length (vas s) \<Longrightarrow>
    \<exists>s' c f. step cfg s (int i) = Ret (of_bool (fst (policy cfg (trace s) i a)), s') \<and>
      rel cfg (Suc i) s' (snd (policy cfg (trace s) i a)) \<and> vas s' = vas s \<and> placed cfg s' i c f"
begin

lemma body_sim:
  assumes "rel cfg i s a" and "i < length (vas s)" and "totals_ok cfg (vas s) hs t" and "length hs = i"
  shows "\<exists>t' s'. simBody (step cfg) cfg (int i) (t, s) = Ret (t', s') \<and>
    rel cfg (Suc i) s' (snd (policy cfg (trace s) i a)) \<and> vas s' = vas s \<and>
    totals_ok cfg (vas s) (hs @ [fst (policy cfg (trace s) i a)]) t'"
proof -
  from step_sim [OF assms(1,2)] obtain s' c f where
    st: "step cfg s (int i) = Ret (of_bool (fst (policy cfg (trace s) i a)), s')"
    and rel: "rel cfg (Suc i) s' (snd (policy cfg (trace s) i a))" and vas: "vas s' = vas s"
    and pl: "placed cfg s' i c f" by blast
  from pl have ok: "config_ok cfg s' c" and f: "f < length c" by (simp_all add: placed_def)
  note C = config_okD [OF ok, unfolded vas, OF assms(2)] config_cfg [OF ok]
  show ?thesis
    using st rel vas placed_frame [OF pl] placed_address [OF pl] assms C f
    by (auto simp: simBody_def Let_def totals_ok_def row_ok_def physOf_def take_Suc_conv_app_nth)
qed

lemma loop_sim:
  assumes "rel cfg i s a" and "i + k \<le> length (vas s)" and "totals_ok cfg (vas s) hs t" and "length hs = i"
  shows "\<exists>t' s'. cfold (simBody (step cfg) cfg) (map int [i..<i + k]) (t, s) = Ret (t', s') \<and>
    rel cfg (i + k) s' (snd (hitsFrom (policy cfg (trace s)) [i..<i + k] a)) \<and> vas s' = vas s \<and>
    totals_ok cfg (vas s) (hs @ fst (hitsFrom (policy cfg (trace s)) [i..<i + k] a)) t'"
  using assms
proof (induction k arbitrary: i s a hs t)
  case (Suc k)
  let ?h = "fst (policy cfg (trace s) i a)" and ?a = "snd (policy cfg (trace s) i a)"
  from body_sim [OF Suc.prems(1) _ Suc.prems(3,4)] Suc.prems(2) obtain t1 s1 where
    b: "simBody (step cfg) cfg (int i) (t, s) = Ret (t1, s1)" "rel cfg (Suc i) s1 ?a" "vas s1 = vas s"
    "totals_ok cfg (vas s) (hs @ [?h]) t1" by auto
  have tr: "trace s1 = trace s" using b(3) by (simp add: trace_def)
  have "[i..<i + Suc k] = i # [Suc i..<Suc i + k]" by (simp add: upt_rec)
  with Suc.IH [of "Suc i" s1 ?a "hs @ [?h]" t1] b Suc.prems(2,4) show ?case
    by (auto simp: tr case_prod_beta simp del: upt_Suc)
qed simp

text \<open>The whole loop of \<open>main\<close>: it returns, and its rows and totals are those of the policy.\<close>

lemma simLoop_sim:
  assumes "rel cfg 0 s a" and "length (vas s) = nat NUM_ADDRESSES"
  shows "\<exists>t' s'. simLoop (step cfg) cfg (zeroTotals, s) = Ret (t', s') \<and>
    totals_ok cfg (vas s) (fst (hitsFrom (policy cfg (trace s)) [0..<nat NUM_ADDRESSES] a)) t'"
  using loop_sim [OF assms(1), of "nat NUM_ADDRESSES" "[]" zeroTotals] assms(2)
  by (auto simp: simLoop_def range0_def totals_ok_def zeroTotals_def)

end

end
