(* ===== verification/PageFIFO.thy ===== *)
theory PageFIFO
  imports PageRun
begin

section \<open>First-in first-out replacement (src/4/as4.c, replacePageFIFO)\<close>

text \<open>
  The source's FIFO replacement and the textbook policy it implements: a list of the
  resident pages in loading order, whose head is evicted.
\<close>

definition fifoClear :: "PageTable list \<Rightarrow> int \<Rightarrow> int \<Rightarrow> int \<Rightarrow> PageTable list cres" where
  "fifoClear pt tp victimFrameNum pageNum =
     cfold (\<lambda>j pt. cbind (aget pt j) (\<lambda>e.
         if victimFrameNum = ptFrameNum e \<and> ptPageNum e \<noteq> pageNum then
           (let victimPageNum = ptPageNum e in
            cbind (aget pt victimPageNum) (\<lambda>e'.
              aset pt victimPageNum (e'\<lparr>ptFrameNum := -1, ptPageNum := -1\<rparr>)))
         else Ret pt))
       (range0 tp) pt"

definition fifoEvict :: "bool \<Rightarrow> Config \<Rightarrow> int \<Rightarrow> int \<Rightarrow> int \<Rightarrow> Sim \<Rightarrow> Sim cres" where
  "fifoEvict mallocOk cfg currentIndex pageNum offset s =
     cbind (dequeue mallocOk (queue s)) (\<lambda>(victimFrameNum, q).
     cbind (fifoClear (ptable s) (totalPage cfg) victimFrameNum pageNum) (\<lambda>pt.
     cbind (loadPage (s\<lparr>queue := q, ptable := pt\<rparr>) currentIndex pageNum victimFrameNum
              (pageSizeBytes cfg) offset) (\<lambda>s1.
     enqueueFrame victimFrameNum s1)))"

definition replacePageFIFO :: "bool \<Rightarrow> Config \<Rightarrow> Sim \<Rightarrow> int \<Rightarrow> (int \<times> Sim) cres" where
  "replacePageFIFO mallocOk cfg s currentIndex =
     replaceWith (\<lambda>_ s. Ret s) (\<lambda>_ i. enqueueFrame i) (fifoEvict mallocOk cfg currentIndex)
       cfg s currentIndex"

subsection \<open>The policy\<close>

definition fifoPolicy :: "nat list policy" where
  "fifoPolicy cfg tr i xs =
     (let p = tr ! i in
      if p \<in> set xs then (True, xs)
      else if length xs < nat (totalFrame cfg) then (False, xs @ [p])
      else (False, tl xs @ [p]))"

text \<open>The queue holds the occupied frames in loading order.\<close>

definition fifoRel :: "Config \<Rightarrow> nat \<Rightarrow> Sim \<Rightarrow> nat list \<Rightarrow> bool" where
  "fifoRel cfg i s xs \<longleftrightarrow> (\<exists>c fs. simrep s c \<and> config_ok cfg s c \<and> order c fs \<and>
     qrep (queue s) (map int fs) \<and> maxSize (queue s) = int (length c) \<and> map Some xs = map ((!) c) fs)"

lemma fifoClear_simrep:
  assumes "simrep s c" and "f < length c" and "Some p \<notin> set c"
  shows "fifoClear (ptable s) (int (length (ptable s))) (int f) (int p) =
    Ret (map (\<lambda>e. if int f = ptFrameNum e \<and> ptPageNum e \<noteq> int p
                 then e\<lparr>ptFrameNum := -1, ptPageNum := -1\<rparr> else e) (ptable s))"
  unfolding fifoClear_def
proof (rule cfold_map_if [where P = "\<lambda>j e. ptFrameNum e = int f \<longrightarrow> ptPageNum e = int j"], goal_cases)
  case (1 j pt)
  then show ?case by (auto simp: Let_def)
next
  case (2 j)
  then show ?case using simrepD(1,5,6) [OF assms(1)] frameOf_iff [OF simrepD(1) [OF assms(1)] assms(2)]
    assms(2) by (auto simp: frameOf_absent split: if_splits dest: nth_mem)
qed

subsection \<open>Refinement\<close>

lemma fifo_hit:
  assumes "simrep s c" and "config_ok cfg s c" and "i < length (vas s)" and "Some (trace s ! i) \<in> set c"
    and "order c fs" and "qrep (queue s) (map int fs)" and "maxSize (queue s) = int (length c)"
    and "map Some xs = map ((!) c) fs"
  shows "\<exists>s' c' f. replacePageFIFO mok cfg s (int i) = Ret (1, s') \<and> fifoRel cfg (Suc i) s' xs \<and>
    vas s' = vas s \<and> placed cfg s' i c' f"
proof -
  from assms(4) obtain f where f: "f < length c" "c ! f = Some (trace s ! i)" using frameOf_ex by blast
  let ?s = "touch s f (physOf cfg s i f)"
  have pl: "placed cfg ?s i c f" by (rule placed_touch [OF assms(1-3) f])
  then have "fifoRel cfg (Suc i) ?s xs"
    using assms(5-8) unfolding fifoRel_def placed_def by (intro exI [of _ c] exI [of _ fs]) simp
  then show ?thesis using replaceWith_hit [OF assms(1-3) f] pl by (auto simp: replacePageFIFO_def)
qed

lemma fifo_free:
  assumes "simrep s c" and "config_ok cfg s c" and "i < length (vas s)" and "Some (trace s ! i) \<notin> set c"
    and "None \<in> set c"
    and "order c fs" and "qrep (queue s) (map int fs)" and "maxSize (queue s) = int (length c)"
    and "map Some xs = map ((!) c) fs"
  shows "\<exists>s' c' f. replacePageFIFO mok cfg s (int i) = Ret (0, s') \<and>
    fifoRel cfg (Suc i) s' (xs @ [trace s ! i]) \<and> vas s' = vas s \<and> placed cfg s' i c' f"
proof -
  from first_free [OF assms(5)] obtain f where f: "f < length c" "c ! f = None" "\<forall>g < f. c ! g \<noteq> None"
    by blast
  let ?p = "trace s ! i" and ?s = "loaded s i (trace s ! i) f (physOf cfg s i f)"
  let ?c = "c[f := Some ?p]"
  have pl: "placed cfg ?s i ?c f" by (rule placed_loaded [OF assms(1-3) f(1,2) assms(4)])
  have vas: "vas ?s = vas s" using vas_rewrite [OF assms(2,3)] by simp
  obtain q where q: "enqueueFrame (int f) ?s = Ret (?s\<lparr>queue := q\<rparr>)" "qrep q (map int (fs @ [f]))"
      "maxSize q = maxSize (queue s)"
    using enqueueFrame_order [of ?s fs f] assms(7,8) order_room [OF assms(6,5)] by auto
  have "f \<notin> set fs" using assms(6) f(2) by (auto simp: order_def)
  then have "map Some (xs @ [?p]) = map ((!) ?c) (fs @ [f])"
    using assms(9) f(1) by (simp add: map_nth_update_other)
  then have "fifoRel cfg (Suc i) (?s\<lparr>queue := q\<rparr>) (xs @ [?p])"
    using pl q(2,3) assms(8) order_load [OF assms(6) f(1,2)] unfolding fifoRel_def
    by (intro exI [of _ ?c] exI [of _ "fs @ [f]"]) (simp add: placed_def del: map_append)
  moreover have "replacePageFIFO mok cfg s (int i) = Ret (0, ?s\<lparr>queue := q\<rparr>)"
    using replaceWith_free [OF assms(1-4) f] q(1) by (simp add: replacePageFIFO_def)
  moreover have "placed cfg (?s\<lparr>queue := q\<rparr>) i ?c f" "vas (?s\<lparr>queue := q\<rparr>) = vas s"
    using pl vas by simp_all
  ultimately show ?thesis by blast
qed

lemma fifo_evict:
  assumes "simrep s c" and "config_ok cfg s c" and "i < length (vas s)" and "Some (trace s ! i) \<notin> set c"
    and "None \<notin> set c"
    and "order c fs" and "qrep (queue s) (map int fs)" and "maxSize (queue s) = int (length c)"
    and "map Some xs = map ((!) c) fs"
  shows "\<exists>s' c' f. replacePageFIFO mok cfg s (int i) = Ret (0, s') \<and>
    fifoRel cfg (Suc i) s' (tl xs @ [trace s ! i]) \<and> vas s' = vas s \<and> placed cfg s' i c' f"
proof -
  note C = config_okD [OF assms(2,3)] config_cfg [OF assms(2)] and D = simrepD [OF assms(1)]
  have "length fs = length c" by (rule order_full [OF assms(6,5)])
  with C(8) obtain f g gs where fs: "fs = f # g # gs"
    by (cases fs; cases "tl fs") auto
  have f: "f < length c" using order_subset [OF assms(6)] fs by auto
  let ?p = "trace s ! i" and ?a = "physOf cfg s i f"
  let ?c = "c[f := Some ?p]"
  let ?pt = "map (\<lambda>e. if int f = ptFrameNum e \<and> ptPageNum e \<noteq> int ?p
      then e\<lparr>ptFrameNum := -1, ptPageNum := -1\<rparr> else e) (ptable s)"
  obtain q1 q2 where q: "dequeue mok (queue s) = Ret (int f, q1)" "enqueue q1 (int f) = Ret (0, q2)"
      "qrep q2 (map int (g # gs @ [f]))" "nat (maxSize q2) = nat (maxSize (queue s))"
    using ring.recycle [of "queue s" "int f" "int g" "map int gs" mok "int f"] assms(7) fs by auto
  let ?s1 = "s\<lparr>queue := q1, ptable := ?pt\<rparr>"
  let ?s2 = "loaded ?s1 i ?p f ?a"
  have ev: "fifoEvict mok cfg (int i) (int ?p) (virtualAddress (vas s ! i) mod pageSizeBytes cfg) s =
      Ret (?s2\<lparr>queue := q2\<rparr>)"
    using q C D(2) assms(3) f fifoClear_simrep [OF assms(1) f assms(4)]
    by (simp add: fifoEvict_def loadPage_loaded enqueueFrame_def physOf_def)
  have rep: "simrep ?s2 ?c"
  proof (rule simrep_replace [OF assms(1) f C(4) assms(4), where a = ?a])
    fix r assume r: "r < length (ptable s)"
    then show "ptFrameNum (ptable ?s2 ! r) =
        (if r = ?p then int f else if c ! f = Some r then -1 else ptFrameNum (ptable s ! r))"
      and "ptPageNum (ptable ?s2 ! r) =
        (if r = ?p then int ?p else if c ! f = Some r then -1 else ptPageNum (ptable s ! r))"
      using C(4) evict_entry [OF assms(1) f assms(4) r] by (auto simp: nth_list_update)
  qed (use C(4) in simp_all)
  have vas: "vas ?s2 = vas s" using vas_rewrite [OF assms(2,3)] by simp
  have pl: "placed cfg ?s2 i ?c f"
    using rep vas f D(2) by (intro placedI [OF _ assms(2,3)]) simp_all
  have "f \<notin> set (g # gs)" using assms(6) fs by (auto simp: order_def)
  then have "map Some (tl xs @ [?p]) = map ((!) ?c) (g # gs @ [f])"
    using assms(9) f fs map_nth_update_other [of f "g # gs" c "Some ?p"] by (cases xs) auto
  moreover have "order ?c (g # gs @ [f])" using order_move [of c f "g # gs"] assms(6) fs by simp
  ultimately have "fifoRel cfg (Suc i) (?s2\<lparr>queue := q2\<rparr>) (tl xs @ [?p])"
    using pl q(3,4) assms(8) C(8) unfolding fifoRel_def
    by (intro exI [of _ ?c] exI [of _ "g # gs @ [f]"]) (auto simp: placed_def eq_nat_nat_iff qrep_def simp del: map_append list.map)
  moreover have "replacePageFIFO mok cfg s (int i) = Ret (0, ?s2\<lparr>queue := q2\<rparr>)"
    using replaceWith_evict [OF assms(1-5)] ev by (simp add: replacePageFIFO_def)
  moreover have "placed cfg (?s2\<lparr>queue := q2\<rparr>) i ?c f" "vas (?s2\<lparr>queue := q2\<rparr>) = vas s"
    using pl vas by simp_all
  ultimately show ?thesis by blast
qed

interpretation fifo: page_policy "replacePageFIFO mok" fifoRel fifoPolicy for mok
proof unfold_locales
  fix cfg i s xs
  assume rel: "fifoRel cfg i s xs" and i: "i < length (vas s)"
  from rel obtain c fs where R: "simrep s c" "config_ok cfg s c" "order c fs"
    "qrep (queue s) (map int fs)" "maxSize (queue s) = int (length c)" "map Some xs = map ((!) c) fs"
    by (auto simp: fifoRel_def)
  note P = order_pages [OF R(3,6)]
  have full: "length xs < nat (totalFrame cfg) \<longleftrightarrow> None \<in> set c"
    using order_full [OF R(3)] order_room [OF R(3)] P(2) config_cfg(2) [OF R(2)] by force
  show "\<exists>s' c f. replacePageFIFO mok cfg s (int i) =
      Ret (of_bool (fst (fifoPolicy cfg (trace s) i xs)), s') \<and>
      fifoRel cfg (Suc i) s' (snd (fifoPolicy cfg (trace s) i xs)) \<and> vas s' = vas s \<and> placed cfg s' i c f"
    using fifo_hit [OF R(1,2) i _ R(3-6), of mok] fifo_free [OF R(1,2) i _ _ R(3-6), of mok]
      fifo_evict [OF R(1,2) i _ _ R(3-6), of mok]
    by (simp add: fifoPolicy_def Let_def P(1) full)
qed

lemma fifo_start:
  assumes "ready cfg vs q"
  shows "fifoRel cfg 0 (startSim cfg vs q) []"
  using ready_start [OF assms] assms unfolding fifoRel_def
  by (intro exI [of _ "replicate (nat (totalFrame cfg)) None"] exI [of _ "[]"]) (simp add: ready_def)

text \<open>
  C5: FIFO replacement. From the start state, the loop of \<open>main\<close> with \<open>replacePageFIFO\<close>
  returns without undefined behaviour; its H/F column is the hit/fault sequence of the
  textbook FIFO policy on the page reference string, every row translates its address to
  frame number times page size plus offset, and the totals count the hits and the faults.
\<close>

theorem fifo_correct:
  assumes "ready cfg vs q"
  shows "\<exists>t s'. simLoop (replacePageFIFO mok cfg) cfg (zeroTotals, startSim cfg vs q) = Ret (t, s') \<and>
    totals_ok cfg vs
      (fst (hitsFrom (fifoPolicy cfg (map (\<lambda>v. nat (vaPageNum v)) vs)) [0..<nat NUM_ADDRESSES] [])) t"
  using fifo.simLoop_sim [OF fifo_start [OF assms], of mok] ready_start(4) [OF assms]
  by (simp add: trace_startSim)

theorem fifo_correct_witness:
  "\<exists>t s'. simLoop (replacePageFIFO True demoConfig) demoConfig
      (zeroTotals, startSim demoConfig demoVas demoQueue) = Ret (t, s') \<and>
    totals_ok demoConfig demoVas
      (fst (hitsFrom (fifoPolicy demoConfig (map (\<lambda>v. nat (vaPageNum v)) demoVas))
         [0..<nat NUM_ADDRESSES] [])) t"
  by (rule fifo_correct [OF demo_ready])

end
