(* ===== verification/PageSC.thy ===== *)
theory PageSC
  imports PageRun
begin

section \<open>Second-chance replacement (src/4/as4.c, replacePageSC)\<close>

text \<open>
  The source's second-chance replacement. The search for a victim restarts from the first
  page table entry each time a referenced page is put back; it ends because every restart
  clears a reference bit. The policy it implements is the textbook one: a list of resident
  pages with their reference bits, whose referenced heads move to the tail.
\<close>

lemma count_clear_bit:
  assumes "0 \<le> i" and "i < int (length pt)" and "referenceBit (pt ! nat i) = 1"
  shows "length (filter (\<lambda>e. referenceBit e = 1) (pt[nat i := (pt ! nat i)\<lparr>referenceBit := 0\<rparr>]))
    < length (filter (\<lambda>e. referenceBit e = 1) pt)"
proof -
  have "nat i < length pt" using assms by simp
  then show ?thesis using assms(3)
    by (subst (2) id_take_nth_drop [of "nat i" pt]) (simp_all add: upd_conv_take_nth_drop)
qed

function scVictim ::
    "bool \<Rightarrow> int \<Rightarrow> int \<Rightarrow> int \<Rightarrow> PageTable list \<Rightarrow> PageQueue \<Rightarrow> (int \<times> PageTable list \<times> PageQueue) cres"
where
  "scVictim mallocOk tp j victimFrameNum pt q =
     (if j < tp then
        cbind (aget pt j) (\<lambda>e.
        if victimFrameNum = ptFrameNum e then
          (let victimPageNum = ptPageNum e in
           cbind (aget pt victimPageNum) (\<lambda>v.
           if referenceBit v = 1 then
             cbind (aset pt victimPageNum (v\<lparr>referenceBit := 0\<rparr>)) (\<lambda>pt'.
             cbind (enqueue q victimFrameNum) (\<lambda>(_, q1).
             cbind (dequeue mallocOk q1) (\<lambda>(victimFrameNum', q2).
               scVictim mallocOk tp 0 victimFrameNum' pt' q2)))
           else Ret (victimFrameNum, pt, q)))
        else scVictim mallocOk tp (j + 1) victimFrameNum pt q)
      else Ret (victimFrameNum, pt, q))"
  by pat_completeness auto
termination
  by (relation "measures [\<lambda>(_, _, _, _, pt, _). length (filter (\<lambda>e. referenceBit e = 1) pt),
        \<lambda>(_, tp, j, _, _, _). nat (tp - j)]")
    (auto simp: aget_Ret_iff aset_Ret_iff intro: count_clear_bit)

declare scVictim.simps [simp del]

definition setReferenceBit :: "int \<Rightarrow> int \<Rightarrow> Sim \<Rightarrow> Sim cres" where
  "setReferenceBit b pageNum s =
     cbind (aget (ptable s) pageNum) (\<lambda>e.
     cbind (aset (ptable s) pageNum (e\<lparr>referenceBit := b\<rparr>)) (\<lambda>pt. Ret (s\<lparr>ptable := pt\<rparr>)))"

definition scEvict :: "bool \<Rightarrow> Config \<Rightarrow> int \<Rightarrow> int \<Rightarrow> int \<Rightarrow> Sim \<Rightarrow> Sim cres" where
  "scEvict mallocOk cfg currentIndex pageNum offset s =
     cbind (dequeue mallocOk (queue s)) (\<lambda>(v0, q0).
     cbind (scVictim mallocOk (totalPage cfg) 0 v0 (ptable s) q0) (\<lambda>(victimFrameNum, pt, q).
     cbind (clearOthers pt (totalPage cfg) victimFrameNum pageNum) (\<lambda>pt'.
     cbind (loadPage (s\<lparr>queue := q, ptable := pt'\<rparr>) currentIndex pageNum victimFrameNum
              (pageSizeBytes cfg) offset) (\<lambda>s1.
     cbind (setReferenceBit 0 pageNum s1) (\<lambda>s2.
     enqueueFrame victimFrameNum s2)))))"

definition replacePageSC :: "bool \<Rightarrow> Config \<Rightarrow> Sim \<Rightarrow> int \<Rightarrow> (int \<times> Sim) cres" where
  "replacePageSC mallocOk cfg s currentIndex =
     replaceWith (\<lambda>pg. setReferenceBit 1 pg)
       (\<lambda>pageNum i s1. cbind (setReferenceBit 0 pageNum s1) (\<lambda>s2. enqueueFrame i s2))
       (scEvict mallocOk cfg currentIndex) cfg s currentIndex"

subsection \<open>The policy\<close>

function scTurn :: "(nat \<times> bool) list \<Rightarrow> (nat \<times> bool) list" where
  "scTurn [] = []"
| "scTurn ((p, b) # xs) = (if b then scTurn (xs @ [(p, False)]) else (p, b) # xs)"
  by pat_completeness auto
termination
  by (relation "measure (\<lambda>xs. length (filter snd xs))") auto

definition scPolicy :: "(nat \<times> bool) list policy" where
  "scPolicy cfg tr i xs =
     (let p = tr ! i in
      if p \<in> fst ` set xs then (True, map (\<lambda>(x, b). (x, b \<or> x = p)) xs)
      else if length xs < nat (totalFrame cfg) then (False, xs @ [(p, False)])
      else (False, tl (scTurn xs) @ [(p, False)]))"

definition scAssoc :: "PageTable list \<Rightarrow> nat option list \<Rightarrow> nat list \<Rightarrow> (nat \<times> bool) list \<Rightarrow> bool" where
  "scAssoc pt c fs xs \<longleftrightarrow>
     list_all2 (\<lambda>f (p, b). c ! f = Some p \<and> b = (referenceBit (pt ! p) = 1)) fs xs"

definition scRel :: "Config \<Rightarrow> nat \<Rightarrow> Sim \<Rightarrow> (nat \<times> bool) list \<Rightarrow> bool" where
  "scRel cfg i s xs \<longleftrightarrow> (\<exists>c fs. simrep s c \<and> config_ok cfg s c \<and> order c fs \<and>
     qrep (queue s) (map int fs) \<and> maxSize (queue s) = int (length c) \<and> scAssoc (ptable s) c fs xs)"

lemma scAssoc_pages: "scAssoc pt c fs xs \<Longrightarrow> map Some (map fst xs) = map ((!) c) fs"
  unfolding scAssoc_def by (induction rule: list_all2_induct) auto

text \<open>Changing a reference bit changes nothing else.\<close>

abbreviation withBit :: "PageTable list \<Rightarrow> nat \<Rightarrow> int \<Rightarrow> PageTable list" where
  "withBit pt p b \<equiv> pt[p := (pt ! p)\<lparr>referenceBit := b\<rparr>]"

lemma simrep_bit: "simrep s c \<Longrightarrow> simrep (s\<lparr>ptable := withBit (ptable s) p b\<rparr>) c"
  by (cases "p < length (ptable s)") (auto simp: simrep_def nth_list_update)

lemma setReferenceBit_eq:
  "p < length (ptable s) \<Longrightarrow> setReferenceBit b (int p) s = Ret (s\<lparr>ptable := withBit (ptable s) p b\<rparr>)"
  by (simp add: setReferenceBit_def)

lemma scAssoc_bit_other:
  assumes "scAssoc pt c fs xs" and "Some p \<notin> (!) c ` set fs"
  shows "scAssoc (withBit pt p b) c fs xs"
  using assms unfolding scAssoc_def
  by (induction rule: list_all2_induct) (auto simp: nth_list_update)

subsection \<open>The victim search\<close>

lemma scVictim_skip:
  assumes "simrep s c" and "f < length c" and "c ! f = Some p" and "j \<le> p"
  shows "scVictim mok (int (length (ptable s))) (int j) (int f) (ptable s) q =
    scVictim mok (int (length (ptable s))) (int p) (int f) (ptable s) q"
  using assms(4)
proof (induction "p - j" arbitrary: j)
  case (Suc d)
  have p: "p < length (ptable s)" using assms(2,3) cache_ok_bound [OF simrepD(1) [OF assms(1)]] by (metis nth_mem)
  with Suc have j: "j < p" "j < length (ptable s)" by auto
  have "int f \<noteq> ptFrameNum (ptable s ! j)"
    using simrepD(5) [OF assms(1) j(2)] frameOf_iff [OF simrepD(1) [OF assms(1)] assms(2), of j] assms(3) j(1)
    by auto
  with j have "scVictim mok (int (length (ptable s))) (int j) (int f) (ptable s) q =
      scVictim mok (int (length (ptable s))) (int (Suc j)) (int f) (ptable s) q"
    by (subst scVictim.simps) (simp add: add.commute)
  also have "\<dots> = scVictim mok (int (length (ptable s))) (int p) (int f) (ptable s) q"
    using Suc.hyps(2) j by (intro Suc.hyps(1)) auto
  finally show ?case .
qed simp

lemma scVictim_at:
  assumes "simrep s c" and "f < length c" and "c ! f = Some p"
  shows "scVictim mok (int (length (ptable s))) 0 (int f) (ptable s) q =
    (if referenceBit (ptable s ! p) = 1 then
       cbind (enqueue q (int f)) (\<lambda>(_, q1).
       cbind (dequeue mok q1) (\<lambda>(f', q2).
         scVictim mok (int (length (ptable s))) 0 f' (withBit (ptable s) p 0) q2))
     else Ret (int f, ptable s, q))"
proof -
  have mem: "Some p \<in> set c" using assms(2,3) by (metis nth_mem)
  have p: "p < length (ptable s)" using cache_ok_bound [OF simrepD(1) [OF assms(1)] mem] .
  have "ptFrameNum (ptable s ! p) = int f" "ptPageNum (ptable s ! p) = int p"
    using simrepD(5,6) [OF assms(1) p] frameOf_iff [OF simrepD(1) [OF assms(1)] assms(2), of p] assms(3) mem
    by auto
  then show ?thesis
    using scVictim_skip [OF assms, of 0 mok q] p
    by (simp add: scVictim.simps [of mok _ "int p"] Let_def)
qed

lemma scVictim_turn:
  assumes "simrep s c" and "order c (f # gs)" and "gs \<noteq> []" and "qrep q (map int gs)"
    and "maxSize q = int (length c)" and "length (f # gs) = length c" and "scAssoc (ptable s) c (f # gs) xs"
  shows "\<exists>f' gs' pt' q'. scVictim mok (int (length (ptable s))) 0 (int f) (ptable s) q = Ret (int f', pt', q') \<and>
    order c (f' # gs') \<and> length (f' # gs') = length c \<and> qrep q' (map int gs') \<and> maxSize q' = int (length c) \<and>
    length pt' = length (ptable s) \<and> simrep (s\<lparr>ptable := pt'\<rparr>) c \<and> scAssoc pt' c (f' # gs') (scTurn xs)"
  using assms
proof (induction xs arbitrary: s f gs q rule: scTurn.induct)
  case 1
  then show ?case by (simp add: scAssoc_def)
next
  case (2 p b xs)
  from "2.prems"(7) have cf: "c ! f = Some p" and b: "b = (referenceBit (ptable s ! p) = 1)"
    and rest: "scAssoc (ptable s) c gs xs" by (simp_all add: scAssoc_def)
  have f: "f < length c" using order_subset [OF "2.prems"(2)] by auto
  have fgs: "f \<notin> set gs" "set gs \<subseteq> {..<length c}" using "2.prems"(2) order_subset [OF "2.prems"(2)]
    by (auto simp: order_def)
  show ?case
  proof (cases b)
    case False
    then have "scVictim mok (int (length (ptable s))) 0 (int f) (ptable s) q = Ret (int f, ptable s, q)"
      using scVictim_at [OF "2.prems"(1) f cf, of mok q] b by simp
    then show ?thesis using False "2.prems" by (intro exI [of _ f] exI [of _ gs]) auto
  next
    case True
    obtain g hs where gs: "gs = g # hs" using "2.prems"(3) by (cases gs) auto
    have len: "length gs < nat (maxSize q)" using "2.prems"(5,6) by simp
    obtain q1 where q1: "enqueue q (int f) = Ret (0, q1)" "qrep q1 (map int (gs @ [f]))" "maxSize q1 = maxSize q"
      using enqueue_qrep [OF "2.prems"(4), of "int f"] len by auto
    obtain q2 where q2: "dequeue mok q1 = Ret (int g, q2)" "qrep q2 (map int (hs @ [f]))" "maxSize q2 = maxSize q1"
      using dequeue_qrep [of q1 "int g" "map int (hs @ [f])" mok] q1(2) gs by auto
    let ?s = "s\<lparr>ptable := withBit (ptable s) p 0\<rparr>"
    have mem: "Some p \<in> set c" using f cf by (metis nth_mem)
    have p: "p < length (ptable s)" using cache_ok_bound [OF simrepD(1) [OF "2.prems"(1)] mem] .
    have other: "Some p \<notin> (!) c ` set gs"
      using cache_inj [OF simrepD(1) [OF "2.prems"(1)] f _ cf] fgs by auto
    have "scAssoc (ptable ?s) c (gs @ [f]) (xs @ [(p, False)])"
      using scAssoc_bit_other [OF rest other, of 0] cf p
      by (auto simp: scAssoc_def list_all2_appendI)
    moreover have "order c (gs @ [f])" by (rule order_rotate [OF "2.prems"(2)])
    ultimately have "\<exists>f' gs' pt' q'. scVictim mok (int (length (ptable ?s))) 0 (int g) (ptable ?s) q2 =
        Ret (int f', pt', q') \<and> order c (f' # gs') \<and> length (f' # gs') = length c \<and> qrep q' (map int gs') \<and>
        maxSize q' = int (length c) \<and> length pt' = length (ptable ?s) \<and> simrep (?s\<lparr>ptable := pt'\<rparr>) c \<and>
        scAssoc pt' c (f' # gs') (scTurn (xs @ [(p, False)]))"
      using True q1 q2 gs "2.prems" simrep_bit [OF "2.prems"(1), of p 0]
      by (intro "2.IH") auto
    then show ?thesis
      using scVictim_at [OF "2.prems"(1) f cf, of mok q] b True q1(1) q2(1) by simp
  qed
qed

subsection \<open>Refinement\<close>

lemma scAssoc_cong:
  assumes "scAssoc pt c fs xs" and "\<And>f. f \<in> set fs \<Longrightarrow> c' ! f = c ! f"
    and "\<And>p. p \<in> fst ` set xs \<Longrightarrow> referenceBit (pt' ! p) = referenceBit (pt ! p)"
  shows "scAssoc pt' c' fs xs"
  using assms unfolding scAssoc_def by (induction rule: list_all2_induct) auto

lemma placed_bit: "placed cfg s i c f \<Longrightarrow> placed cfg (s\<lparr>ptable := withBit (ptable s) p b\<rparr>) i c f"
  using simrep_bit [of s c p b] by (simp add: placed_def config_ok_def trace_def physOf_def)

lemma scRelI:
  assumes "placed cfg s j c g" and "order c fs" and "qrep (queue s) (map int fs)"
    and "maxSize (queue s) = int (length c)" and "scAssoc (ptable s) c fs xs"
  shows "scRel cfg i s xs"
  using assms unfolding scRel_def placed_def by blast

lemma sc_hit:
  assumes "simrep s c" and "config_ok cfg s c" and "i < length (vas s)" and "Some (trace s ! i) \<in> set c"
    and "order c fs" and "qrep (queue s) (map int fs)" and "maxSize (queue s) = int (length c)"
    and "scAssoc (ptable s) c fs xs"
  shows "\<exists>s' c' f. replacePageSC mok cfg s (int i) = Ret (1, s') \<and>
    scRel cfg (Suc i) s' (map (\<lambda>(x, b). (x, b \<or> x = trace s ! i)) xs) \<and> vas s' = vas s \<and> placed cfg s' i c' f"
proof -
  let ?p = "trace s ! i"
  from assms(4) obtain f where f: "f < length c" "c ! f = Some ?p" using frameOf_ex by blast
  note p = config_okD(4) [OF assms(2,3)]
  let ?t = "touch s f (physOf cfg s i f)"
  let ?s = "?t\<lparr>ptable := withBit (ptable s) ?p 1\<rparr>"
  have "replacePageSC mok cfg s (int i) = Ret (1, ?s)"
    using replaceWith_hit [OF assms(1-3) f] p by (simp add: replacePageSC_def setReferenceBit_eq)
  moreover have pl: "placed cfg ?s i c f"
    using placed_bit [OF placed_touch [OF assms(1-3) f], of ?p 1] by simp
  moreover have "scAssoc (ptable ?s) c fs (map (\<lambda>(x, b). (x, b \<or> x = ?p)) xs)"
    using assms(8) p unfolding scAssoc_def
    by (auto simp: list_all2_map2 nth_list_update elim!: list_all2_mono)
  then have "scRel cfg (Suc i) ?s (map (\<lambda>(x, b). (x, b \<or> x = ?p)) xs)"
    using assms(5-7) by (intro scRelI [OF pl]) simp_all
  moreover have "vas ?s = vas s" by simp
  ultimately show ?thesis by blast
qed

lemma scAssoc_fst: "scAssoc pt c fs xs \<Longrightarrow> fst ` set xs \<subseteq> {p. Some p \<in> (!) c ` set fs}"
  unfolding scAssoc_def by (induction rule: list_all2_induct) auto

lemma order_image: "order c fs \<Longrightarrow> (!) c ` set fs \<subseteq> set c"
  by (meson image_subsetI lessThan_iff nth_mem order_subset subsetD)

lemma sc_free:
  assumes "simrep s c" and "config_ok cfg s c" and "i < length (vas s)" and "Some (trace s ! i) \<notin> set c"
    and "None \<in> set c"
    and "order c fs" and "qrep (queue s) (map int fs)" and "maxSize (queue s) = int (length c)"
    and "scAssoc (ptable s) c fs xs"
  shows "\<exists>s' c' f. replacePageSC mok cfg s (int i) = Ret (0, s') \<and>
    scRel cfg (Suc i) s' (xs @ [(trace s ! i, False)]) \<and> vas s' = vas s \<and> placed cfg s' i c' f"
proof -
  from first_free [OF assms(5)] obtain f where f: "f < length c" "c ! f = None" "\<forall>g < f. c ! g \<noteq> None"
    by blast
  note p = config_okD(4) [OF assms(2,3)]
  let ?p = "trace s ! i" and ?l = "loaded s i (trace s ! i) f (physOf cfg s i f)"
  let ?c = "c[f := Some ?p]" and ?t = "?l\<lparr>ptable := withBit (ptable ?l) ?p 0\<rparr>"
  have pl: "placed cfg ?t i ?c f"
    by (rule placed_bit [OF placed_loaded [OF assms(1-3) f(1,2) assms(4)]])
  have vas: "vas ?t = vas s" using vas_rewrite [OF assms(2,3)] by simp
  obtain q where q: "enqueueFrame (int f) ?t = Ret (?t\<lparr>queue := q\<rparr>)" "qrep q (map int (fs @ [f]))"
      "maxSize q = maxSize (queue s)"
    using enqueueFrame_order [of ?t fs f] assms(7,8) order_room [OF assms(6,5)] by auto
  have st: "replacePageSC mok cfg s (int i) = Ret (0, ?t\<lparr>queue := q\<rparr>)"
    using replaceWith_free [OF assms(1-4) f] q(1) p by (simp add: replacePageSC_def setReferenceBit_eq)
  have "f \<notin> set fs" using assms(6) f(2) by (auto simp: order_def)
  moreover have "?p \<notin> fst ` set xs"
    using scAssoc_fst [OF assms(9)] order_image [OF assms(6)] assms(4) by blast
  moreover have "referenceBit (ptable ?t ! r) = referenceBit (ptable s ! r)" if "?p \<noteq> r" for r
    using that by simp
  ultimately have "scAssoc (ptable ?t) ?c fs xs"
    using assms(9) by (elim scAssoc_cong) (metis nth_list_update_neq)+
  then have "scAssoc (ptable ?t) ?c (fs @ [f]) (xs @ [(?p, False)])"
    using f(1) p by (auto simp: scAssoc_def list_all2_appendI)
  then have "scRel cfg (Suc i) (?t\<lparr>queue := q\<rparr>) (xs @ [(?p, False)])"
    using pl q(2,3) assms(8) order_load [OF assms(6) f(1,2)] by (intro scRelI [where c = ?c]) simp_all
  moreover have "placed cfg (?t\<lparr>queue := q\<rparr>) i ?c f" "vas (?t\<lparr>queue := q\<rparr>) = vas s" using pl vas by simp_all
  ultimately show ?thesis using st by blast
qed

lemma sc_evict:
  assumes "simrep s c" and "config_ok cfg s c" and "i < length (vas s)" and "Some (trace s ! i) \<notin> set c"
    and "None \<notin> set c"
    and "order c fs" and "qrep (queue s) (map int fs)" and "maxSize (queue s) = int (length c)"
    and "scAssoc (ptable s) c fs xs"
  shows "\<exists>s' c' f. replacePageSC mok cfg s (int i) = Ret (0, s') \<and>
    scRel cfg (Suc i) s' (tl (scTurn xs) @ [(trace s ! i, False)]) \<and> vas s' = vas s \<and> placed cfg s' i c' f"
proof -
  note C = config_okD [OF assms(2,3)] config_cfg [OF assms(2)] and D = simrepD [OF assms(1)]
  have lfs: "length fs = length c" by (rule order_full [OF assms(6,5)])
  with C(8) obtain f0 g0 gs0 where fs: "fs = f0 # g0 # gs0" by (cases fs; cases "tl fs") auto
  obtain q0 where q0: "dequeue mok (queue s) = Ret (int f0, q0)" "qrep q0 (map int (g0 # gs0))"
      "maxSize q0 = int (length c)"
    using dequeue_qrep [of "queue s" "int f0" "map int (g0 # gs0)" mok] assms(7,8) fs by auto
  obtain f gs pt q where V: "scVictim mok (int (length (ptable s))) 0 (int f0) (ptable s) q0 = Ret (int f, pt, q)"
    and O: "order c (f # gs)" "length (f # gs) = length c" "qrep q (map int gs)" "maxSize q = int (length c)"
    and P: "length pt = length (ptable s)" "simrep (s\<lparr>ptable := pt\<rparr>) c" "scAssoc pt c (f # gs) (scTurn xs)"
    using scVictim_turn [OF assms(1) _ _ q0(2,3), of f0 xs mok] assms(6,9) lfs fs by auto
  have f: "f < length c" using order_subset [OF O(1)] by auto
  let ?p = "trace s ! i" and ?a = "physOf cfg s i f"
  let ?c = "c[f := Some ?p]"
  let ?pt = "map (\<lambda>e. if int f = ptFrameNum e \<and> int ?p \<noteq> ptPageNum e
      then e\<lparr>ptFrameNum := -1, ptPageNum := -1\<rparr> else e) pt"
  let ?l = "loaded (s\<lparr>queue := q, ptable := ?pt\<rparr>) i ?p f ?a"
  let ?t = "?l\<lparr>ptable := withBit (ptable ?l) ?p 0\<rparr>"
  obtain q' where q': "enqueueFrame (int f) ?t = Ret (?t\<lparr>queue := q'\<rparr>)" "qrep q' (map int (gs @ [f]))"
      "maxSize q' = int (length c)"
    using enqueueFrame_order [of ?t gs f] O(2-4) by auto
  have "scEvict mok cfg (int i) (int ?p) (virtualAddress (vas s ! i) mod pageSizeBytes cfg) s =
      Ret (?t\<lparr>queue := q'\<rparr>)"
    using q0 q'(1) V C D(2) P(1) assms(3) f clearOthers_map [of pt "int f" "int ?p"]
    by (simp add: scEvict_def loadPage_loaded setReferenceBit_eq physOf_def)
  then have st: "replacePageSC mok cfg s (int i) = Ret (0, ?t\<lparr>queue := q'\<rparr>)"
    using replaceWith_evict [OF assms(1-5)] by (simp add: replacePageSC_def)
  have rep: "simrep ?l ?c"
  proof (rule simrep_replace [OF P(2) f _ assms(4), where a = ?a])
    fix r assume "r < length (ptable (s\<lparr>ptable := pt\<rparr>))"
    then show "ptFrameNum (ptable ?l ! r) = (if r = ?p then int f else if c ! f = Some r then -1
          else ptFrameNum (ptable (s\<lparr>ptable := pt\<rparr>) ! r))"
      and "ptPageNum (ptable ?l ! r) = (if r = ?p then int ?p else if c ! f = Some r then -1
          else ptPageNum (ptable (s\<lparr>ptable := pt\<rparr>) ! r))"
      using C(4) P(1) evict_entry [OF P(2) f assms(4), of r] by (auto simp: nth_list_update)
  qed (use C(4) P(1) in simp_all)
  have vas: "vas ?t = vas s" using vas_rewrite [OF assms(2,3)] by simp
  have "placed cfg ?l i ?c f"
    using rep vas f D(2) P(1) by (intro placedI [OF _ assms(2,3)]) simp_all
  then have pl: "placed cfg ?t i ?c f" by (rule placed_bit)
  obtain y ys where ys: "scTurn xs = y # ys" "scAssoc pt c gs ys"
    using P(3) by (auto simp: scAssoc_def list_all2_Cons1)
  have "f \<notin> set gs" using O(1) by (auto simp: order_def)
  moreover have "?p \<notin> fst ` set ys"
    using scAssoc_fst [OF ys(2)] order_image [OF O(1)] assms(4) by auto
  moreover have "fst ` set ys \<subseteq> {r. r < length pt}"
    using scAssoc_fst [OF ys(2)] order_image [OF O(1)] cache_ok_bound [OF D(1)] P(1) by auto
  moreover have "referenceBit (ptable ?t ! r) = referenceBit (pt ! r)" if "?p \<noteq> r" "r < length pt" for r
    using that by simp
  ultimately have "scAssoc (ptable ?t) ?c gs ys"
    using ys(2) by (elim scAssoc_cong) (metis nth_list_update_neq, blast)
  then have "scAssoc (ptable ?t) ?c (gs @ [f]) (ys @ [(?p, False)])"
    using f C(4) P(1) by (auto simp: scAssoc_def list_all2_appendI)
  then have "scRel cfg (Suc i) (?t\<lparr>queue := q'\<rparr>) (tl (scTurn xs) @ [(?p, False)])"
    using pl q'(2,3) order_move [OF O(1)] ys(1) by (intro scRelI [where c = ?c]) simp_all
  moreover have "placed cfg (?t\<lparr>queue := q'\<rparr>) i ?c f" "vas (?t\<lparr>queue := q'\<rparr>) = vas s" using pl vas by simp_all
  ultimately show ?thesis using st by blast
qed

interpretation sc: page_policy "replacePageSC mok" scRel scPolicy for mok
proof unfold_locales
  fix cfg i s xs
  assume rel: "scRel cfg i s xs" and i: "i < length (vas s)"
  from rel obtain c fs where R: "simrep s c" "config_ok cfg s c" "order c fs"
    "qrep (queue s) (map int fs)" "maxSize (queue s) = int (length c)" "scAssoc (ptable s) c fs xs"
    by (auto simp: scRel_def)
  note P = order_pages [OF R(3) scAssoc_pages [OF R(6)]]
  have full: "length xs < nat (totalFrame cfg) \<longleftrightarrow> None \<in> set c"
    using order_full [OF R(3)] order_room [OF R(3)] P(2) config_cfg(2) [OF R(2)] by force
  show "\<exists>s' c f. replacePageSC mok cfg s (int i) =
      Ret (of_bool (fst (scPolicy cfg (trace s) i xs)), s') \<and>
      scRel cfg (Suc i) s' (snd (scPolicy cfg (trace s) i xs)) \<and> vas s' = vas s \<and> placed cfg s' i c f"
    using sc_hit [OF R(1,2) i _ R(3-6), of mok] sc_free [OF R(1,2) i _ _ R(3-6), of mok]
      sc_evict [OF R(1,2) i _ _ R(3-6), of mok]
    by (simp add: scPolicy_def Let_def P(1) [simplified] full)
qed

lemma sc_start:
  assumes "ready cfg vs q"
  shows "scRel cfg 0 (startSim cfg vs q) []"
  using ready_start [OF assms] assms unfolding scRel_def
  by (intro exI [of _ "replicate (nat (totalFrame cfg)) None"] exI [of _ "[]"])
    (simp add: ready_def scAssoc_def)

text \<open>
  C3: second-chance replacement. From the start state, the loop of \<open>main\<close> with
  \<open>replacePageSC\<close> returns (the victim search always ends) without undefined behaviour, its
  H/F column is the hit/fault sequence of the textbook second-chance policy, and rows and
  totals are right.
\<close>

theorem sc_correct:
  assumes "ready cfg vs q"
  shows "\<exists>t s'. simLoop (replacePageSC mok cfg) cfg (zeroTotals, startSim cfg vs q) = Ret (t, s') \<and>
    totals_ok cfg vs
      (fst (hitsFrom (scPolicy cfg (map (\<lambda>v. nat (vaPageNum v)) vs)) [0..<nat NUM_ADDRESSES] [])) t"
  using sc.simLoop_sim [OF sc_start [OF assms], of mok] ready_start(4) [OF assms]
  by (simp add: trace_startSim)

theorem sc_correct_witness:
  "\<exists>t s'. simLoop (replacePageSC True demoConfig) demoConfig
      (zeroTotals, startSim demoConfig demoVas demoQueue) = Ret (t, s') \<and>
    totals_ok demoConfig demoVas
      (fst (hitsFrom (scPolicy demoConfig (map (\<lambda>v. nat (vaPageNum v)) demoVas))
         [0..<nat NUM_ADDRESSES] [])) t"
  by (rule sc_correct [OF demo_ready])

end
