(* ===== verification/PageLRU.thy ===== *)
theory PageLRU
  imports PageRun
begin

section \<open>Least-recently-used replacement (src/4/as4.c, replacePageLRU)\<close>

text \<open>
  The source measures, for every frame, how long ago its page was referenced, by walking
  the reference string backwards, and evicts the frame with the largest distance. The
  policy it implements keeps the resident pages in order of their last reference.
\<close>

subsection \<open>The code\<close>

text \<open>The backward walk from the current index; \<open>d\<close> is the entry of \<open>distances\<close>.\<close>

definition lruDistance :: "VirtualAddressInfo list \<Rightarrow> int \<Rightarrow> int \<Rightarrow> int cres" where
  "lruDistance vs currentIndex page =
     cbind (cfor (\<lambda>j d. cbind (aget vs j) (\<lambda>va.
         Ret (if vaPageNum va = page then Stop (currentIndex - j)
              else Next (if j = 4999 then 5000 else d)))) (rev (range0 (currentIndex + 1))) 0)
       (\<lambda>c. case c of Stop d \<Rightarrow> Ret d | Next d \<Rightarrow> Ret d)"

definition lruVictim :: "Config \<Rightarrow> int \<Rightarrow> Sim \<Rightarrow> int cres" where
  "lruVictim cfg currentIndex s =
     cbind (cfold (\<lambda>i (maxDistanceFrame, maxDistanceFrameNum).
         cbind (aget (frames s) i) (\<lambda>fr.
         cbind (pageNumforSearch (ptable s) (totalPage cfg) (frFrameNum fr)) (\<lambda>page.
         cbind (lruDistance (vas s) currentIndex page) (\<lambda>d.
           Ret (if maxDistanceFrame < d then (d, i) else (maxDistanceFrame, maxDistanceFrameNum))))))
       (range0 (totalFrame cfg)) (-1, 0)) (\<lambda>(_, f). Ret f)"

definition lruEvict :: "Config \<Rightarrow> int \<Rightarrow> int \<Rightarrow> int \<Rightarrow> Sim \<Rightarrow> Sim cres" where
  "lruEvict cfg currentIndex pageNum offset s =
     cbind (lruVictim cfg currentIndex s) (\<lambda>f.
     cbind (loadPage s currentIndex pageNum f (pageSizeBytes cfg) offset) (\<lambda>s1.
     cbind (aget (frames s1) f) (\<lambda>fr.
     cbind (clearOthers (ptable s1) (totalPage cfg) (frFrameNum fr) pageNum) (\<lambda>pt.
       Ret (s1\<lparr>ptable := pt\<rparr>)))))"

definition replacePageLRU :: "Config \<Rightarrow> Sim \<Rightarrow> int \<Rightarrow> (int \<times> Sim) cres" where
  "replacePageLRU cfg s currentIndex =
     replaceWith (\<lambda>_ s. Ret s) (\<lambda>_ _ s. Ret s) (lruEvict cfg currentIndex) cfg s currentIndex"

subsection \<open>The policy\<close>

definition lruPolicy :: "nat list policy" where
  "lruPolicy cfg tr i xs =
     (let p = tr ! i in
      if p \<in> set xs then (True, remove1 p xs @ [p])
      else if length xs < nat (totalFrame cfg) then (False, xs @ [p])
      else (False, tl xs @ [p]))"

text \<open>\<open>j\<close> is the last position before \<open>i\<close> at which \<open>p\<close> is referenced.\<close>

definition usedAt :: "nat list \<Rightarrow> nat \<Rightarrow> nat \<Rightarrow> nat \<Rightarrow> bool" where
  "usedAt tr i p j \<longleftrightarrow> j < i \<and> tr ! j = p \<and> (\<forall>k. j < k \<and> k < i \<longrightarrow> tr ! k \<noteq> p)"

text \<open>The occupied frames with the last use of their pages, oldest use first.\<close>

definition lruRel :: "Config \<Rightarrow> nat \<Rightarrow> Sim \<Rightarrow> nat list \<Rightarrow> bool" where
  "lruRel cfg i s xs \<longleftrightarrow> (\<exists>c zs. simrep s c \<and> config_ok cfg s c \<and> order c (map fst zs) \<and>
     map Some xs = map ((!) c) (map fst zs) \<and> sorted_wrt (<) (map snd zs) \<and>
     (\<forall>(f, u) \<in> set zs. usedAt (trace s) i (the (c ! f)) u))"

lemma usedAt_Suc: "usedAt tr i p j \<Longrightarrow> tr ! i \<noteq> p \<Longrightarrow> usedAt tr (Suc i) p j"
  by (auto simp: usedAt_def less_Suc_eq)

lemma usedAt_now: "usedAt tr (Suc i) (tr ! i) i"
  by (auto simp: usedAt_def)

subsection \<open>The backward walk finds the last use\<close>

lemma lruDistance_found:
  assumes "usedAt (map (\<lambda>v. nat (vaPageNum v)) vs) i p j" and "i < length vs"
    and "\<forall>v \<in> set vs. 0 \<le> vaPageNum v" and "vaPageNum (vs ! i) \<noteq> int p"
  shows "lruDistance vs (int i) (int p) = Ret (int i - int j)"
proof -
  let ?f = "\<lambda>j (d::int). cbind (aget vs j) (\<lambda>va. Ret (if vaPageNum va = int p then Stop (int i - j)
      else Next (if j = 4999 then 5000 else d)))"
  have pg: "vaPageNum (vs ! k) = int p \<longleftrightarrow> map (\<lambda>v. nat (vaPageNum v)) vs ! k = p" if "k < length vs" for k
    using assms(3) that nth_mem [OF that] by auto
  have j: "j < i" "vaPageNum (vs ! j) = int p" "\<forall>k. j < k \<and> k \<le> i \<longrightarrow> vaPageNum (vs ! k) \<noteq> int p"
    using assms(1,2,4) pg by (auto simp: usedAt_def le_less)
  have split: "rev (range0 (int i + 1)) = map int (rev [Suc j..<Suc i]) @ int j # map int (rev [0..<j])"
    using j(1) by (simp add: range0_def rev_map nat_add_distrib upt_split_at [of j "Suc i"] del: upt_Suc)
  have walk: "\<exists>d'. cfor ?f (map int ks) d = Ret (Next d')" if "set ks \<subseteq> {j<..i}" for ks d
    using that assms(2) j(3) by (induction ks arbitrary: d) auto
  have "set (rev [Suc j..<Suc i]) \<subseteq> {j<..i}" by auto
  from walk [OF this, of 0] obtain d' where "cfor ?f (map int (rev [Suc j..<Suc i])) 0 = Ret (Next d')"
    by blast
  then show ?thesis
    using j assms(2) by (simp add: lruDistance_def split cfor_append)
qed

subsection \<open>Refinement\<close>

lemma lruVictim_oldest:
  assumes "simrep s c" and "config_ok cfg s c" and "i < length (vas s)" and "Some (trace s ! i) \<notin> set c"
    and "None \<notin> set c" and "order c (map fst ((f, u) # zs))" and "sorted_wrt (<) (map snd ((f, u) # zs))"
    and "\<forall>(f, u) \<in> set ((f, u) # zs). usedAt (trace s) i (the (c ! f)) u"
  shows "lruVictim cfg (int i) s = Ret (int f)"
proof -
  note C = config_okD [OF assms(2,3)] config_cfg [OF assms(2)] and D = simrepD [OF assms(1)]
  let ?zs = "(f, u) # zs"
  have mem: "g \<in> fst ` set ?zs" if "g < length c" for g
    using order_mem [OF assms(6,5) that] by simp
  define use where "use g = the (map_of ?zs g)" for g
  have use: "(g, use g) \<in> set ?zs" if "g < length c" for g
    using mem [OF that] unfolding use_def
    by (metis map_of_SomeD map_of_eq_None_iff option.exhaust_sel)
  have used: "usedAt (trace s) i (the (c ! g)) (use g)" if "g < length c" for g
    using use [OF that] assms(8) by blast
  let ?d = "\<lambda>g. int i - int (use g)"
  have dist: "cbind (pageNumforSearch (ptable s) (int (length (ptable s))) (frFrameNum (frames s ! g)))
      (lruDistance (vas s) (int i)) = Ret (?d g)" if g: "g < length c" for g
  proof -
    from assms(5) g obtain p where p: "c ! g = Some p" by (metis nth_mem option.exhaust)
    then have "Some p \<in> set c" using g by (metis nth_mem)
    then have "vaPageNum (vas s ! i) \<noteq> int p" using C(3) assms(4) by auto
    then have "lruDistance (vas s) (int i) (int p) = Ret (?d g)"
      using used [OF g] p assms(3) va_nonneg [OF assms(2)]
      by (intro lruDistance_found) (simp_all add: trace_def)
    then show ?thesis using pageNumforSearch_cached [OF assms(1) g p] D(4) [OF g] p by simp
  qed
  have "0 < length c" using C(8) by linarith
  moreover have "-1 < ?d g" if "g < length c" for g using used [OF that] by (simp add: usedAt_def)
  ultimately obtain k where k: "k < length c" "fold (maxStep ?d) [0..<length c] (-1, 0) = (?d k, int k)"
      "\<forall>g < length c. ?d g \<le> ?d k"
    using fold_max [of "length c" "-1" ?d 0] by blast
  have f: "f < length c" using order_subset [OF assms(6)] by simp
  have "use f = u" by (simp add: use_def)
  with k f have "use k \<le> u" by auto
  moreover have "v > u" if "(g, v) \<in> set zs" for g v using that assms(7) by force
  ultimately have "k = f" using use [OF k(1)] by fastforce
  have "lruVictim cfg (int i) s = cbind (cfold (\<lambda>j ma.
      cbind (aget (frames s) j) (\<lambda>fr. cbind (cbind (pageNumforSearch (ptable s) (int (length (ptable s))) (frFrameNum fr))
        (lruDistance (vas s) (int i))) (\<lambda>d. Ret (if fst ma < d then (d, j) else ma))))
      (range0 (int (length c))) (-1, 0)) (\<lambda>(_, f). Ret f)"
    unfolding lruVictim_def C(6,7) by (simp add: case_prod_beta' cong: if_cong)
  also have "\<dots> = cbind (Ret (fold (maxStep ?d) [0..<length c] (-1, 0))) (\<lambda>(_, f). Ret f)"
    using dist D(2) by (subst cfold_fold [where g = "maxStep ?d"]) (simp_all add: maxStep_def del: cbind_assoc)
  finally show ?thesis using k(2) \<open>k = f\<close> by simp
qed

lemma lru_hit:
  assumes "simrep s c" and "config_ok cfg s c" and "i < length (vas s)" and "Some (trace s ! i) \<in> set c"
    and "order c (map fst zs)" and "map Some xs = map ((!) c) (map fst zs)" and "sorted_wrt (<) (map snd zs)"
    and "\<forall>(f, u) \<in> set zs. usedAt (trace s) i (the (c ! f)) u"
  shows "\<exists>s' c' f. replacePageLRU cfg s (int i) = Ret (1, s') \<and>
    lruRel cfg (Suc i) s' (remove1 (trace s ! i) xs @ [trace s ! i]) \<and> vas s' = vas s \<and> placed cfg s' i c' f"
proof -
  let ?p = "trace s ! i"
  from assms(4) obtain f where f: "f < length c" "c ! f = Some ?p" using frameOf_ex by blast
  let ?s = "touch s f (physOf cfg s i f)"
  have st: "replacePageLRU cfg s (int i) = Ret (1, ?s)"
    using replaceWith_hit [OF assms(1-3) f] by (simp add: replacePageLRU_def)
  have pl: "placed cfg ?s i c f" by (rule placed_touch [OF assms(1-3) f])
  have "f \<in> set (map fst zs)" using assms(5) f by (auto simp: order_def)
  then obtain u where "(f, u) \<in> set zs" by auto
  then obtain as bs where zs: "zs = as @ (f, u) # bs" by (meson split_list)
  have other: "c ! g \<noteq> Some ?p" if "(g, v) \<in> set (as @ bs)" for g v
  proof
    assume "c ! g = Some ?p"
    moreover have g: "g \<in> set (map fst zs)" "g \<noteq> f"
      using that assms(5) unfolding zs order_def by (auto simp: image_iff)
    ultimately show False
      using cache_inj [OF simrepD(1) [OF assms(1)] _ f(1) _ f(2), of g] order_subset [OF assms(5)] by auto
  qed
  let ?zs = "as @ bs @ [(f, i)]"
  have "map Some xs = map ((!) c) (map fst as) @ Some ?p # map ((!) c) (map fst bs)"
    using assms(6) f(2) zs by simp
  then obtain ys ws where xs: "xs = ys @ ?p # ws" "map Some ys = map ((!) c) (map fst as)"
      "map Some ws = map ((!) c) (map fst bs)"
    by (auto simp: map_eq_append_conv map_eq_Cons_conv append_eq_map_conv Cons_eq_map_conv)
  have "?p \<notin> set ys"
  proof
    assume "?p \<in> set ys"
    then have "Some ?p \<in> set (map Some ys)" by simp
    then show False using other unfolding xs(2) by fastforce
  qed
  then have rm: "remove1 ?p xs @ [?p] = ys @ ws @ [?p]" using xs(1) by (simp add: remove1_append)
  have "\<forall>(g, v) \<in> set ?zs. usedAt (trace s) (Suc i) (the (c ! g)) v"
  proof clarify
    fix g v assume gv: "(g, v) \<in> set ?zs"
    show "usedAt (trace s) (Suc i) (the (c ! g)) v"
    proof (cases "(g, v) \<in> set (as @ bs)")
      case True
      then have "(g, v) \<in> set zs" using zs by auto
      then have "g \<in> set (map fst zs)" by force
      then have "c ! g \<noteq> None" using assms(5) unfolding order_def by blast
      then show ?thesis using other [OF True] assms(8) True zs by (intro usedAt_Suc) auto
    next
      case False
      then show ?thesis using gv f(2) usedAt_now by auto
    qed
  qed
  moreover have "\<forall>(g, v) \<in> set zs. v < i" using assms(8) by (auto simp: usedAt_def)
  then have "sorted_wrt (<) (map snd ?zs)" using assms(7) unfolding zs by (auto simp: sorted_wrt_append)
  moreover have "order c (map fst ?zs)" using assms(5) unfolding zs order_def by auto
  moreover have "map Some (ys @ ws @ [?p]) = map ((!) c) (map fst ?zs)" using xs f(2) by simp
  moreover have "trace ?s = trace s" by (simp add: trace_def)
  ultimately have "lruRel cfg (Suc i) ?s (ys @ ws @ [?p])"
    using pl unfolding lruRel_def placed_def by (intro exI [of _ c] exI [of _ ?zs]) simp
  then show ?thesis using st pl rm by (metis touch_simps(1))
qed

text \<open>A page loaded at \<open>i\<close> into \<open>f\<close>: the uses of the other pages are as before.\<close>

lemma lru_load_rel:
  assumes "placed cfg s' i (c[f := Some (trace s ! i)]) f" and "trace s' = trace s"
    and "order c fs" and "set (map fst zs) \<subseteq> set fs" and "f \<notin> set (map fst zs)"
    and "order (c[f := Some (trace s ! i)]) (map fst (zs @ [(f, i)]))"
    and "Some (trace s ! i) \<notin> set c" and "map Some xs = map ((!) c) (map fst zs)"
    and "sorted_wrt (<) (map snd zs)" and "\<forall>(f, u) \<in> set zs. usedAt (trace s) i (the (c ! f)) u"
  shows "lruRel cfg (Suc i) s' (xs @ [trace s ! i])"
proof -
  let ?p = "trace s ! i" and ?zs = "zs @ [(f, i)]"
  let ?c = "c[f := Some ?p]"
  have f: "f < length c" using assms(1) by (simp add: placed_def)
  have "map Some (xs @ [?p]) = map ((!) ?c) (map fst ?zs)"
    using assms(8) f map_nth_update_other [OF assms(5), of c "Some ?p"] by simp
  moreover have "\<forall>(g, v) \<in> set zs. v < i" using assms(10) by (auto simp: usedAt_def)
  then have "sorted_wrt (<) (map snd ?zs)" using assms(9) by (auto simp: sorted_wrt_append)
  moreover have "usedAt (trace s) (Suc i) (the (?c ! g)) v" if "(g, v) \<in> set zs" for g v
  proof -
    have g: "g \<in> set (map fst zs)" using that by force
    then have "g \<in> {f. f < length c \<and> c ! f \<noteq> None}" using assms(3,4) unfolding order_def by blast
    then have "the (c ! g) \<noteq> ?p" using assms(7) by (auto dest: nth_mem)
    moreover have "?c ! g = c ! g" using g assms(5) by (metis nth_list_update_neq)
    ultimately show ?thesis using that assms(10) by (auto intro!: usedAt_Suc)
  qed
  then have "\<forall>(g, v) \<in> set ?zs. usedAt (trace s) (Suc i) (the (?c ! g)) v"
    using f usedAt_now by auto
  ultimately show ?thesis
    using assms(1,2,6) unfolding lruRel_def placed_def by (intro exI [of _ ?c] exI [of _ ?zs]) simp
qed

lemma lru_free:
  assumes "simrep s c" and "config_ok cfg s c" and "i < length (vas s)" and "Some (trace s ! i) \<notin> set c"
    and "None \<in> set c"
    and "order c (map fst zs)" and "map Some xs = map ((!) c) (map fst zs)" and "sorted_wrt (<) (map snd zs)"
    and "\<forall>(f, u) \<in> set zs. usedAt (trace s) i (the (c ! f)) u"
  shows "\<exists>s' c' f. replacePageLRU cfg s (int i) = Ret (0, s') \<and>
    lruRel cfg (Suc i) s' (xs @ [trace s ! i]) \<and> vas s' = vas s \<and> placed cfg s' i c' f"
proof -
  from first_free [OF assms(5)] obtain f where f: "f < length c" "c ! f = None" "\<forall>g < f. c ! g \<noteq> None"
    by blast
  let ?p = "trace s ! i" and ?s = "loaded s i (trace s ! i) f (physOf cfg s i f)"
  let ?c = "c[f := Some ?p]"
  have st: "replacePageLRU cfg s (int i) = Ret (0, ?s)"
    using replaceWith_free [OF assms(1-4) f] by (simp add: replacePageLRU_def)
  have pl: "placed cfg ?s i ?c f" by (rule placed_loaded [OF assms(1-3) f(1,2) assms(4)])
  have vas: "vas ?s = vas s" using vas_rewrite [OF assms(2,3)] by simp
  have "f \<notin> set (map fst zs)" using assms(6) f(2) unfolding order_def by blast
  then have "lruRel cfg (Suc i) ?s (xs @ [?p])"
    using vas order_load [OF assms(6) f(1,2), of ?p]
    by (intro lru_load_rel [OF pl _ assms(6) order_refl _ _ assms(4,7-9)]) (simp_all add: trace_def)
  then show ?thesis using st pl vas by blast
qed

lemma lru_evict:
  assumes "simrep s c" and "config_ok cfg s c" and "i < length (vas s)" and "Some (trace s ! i) \<notin> set c"
    and "None \<notin> set c"
    and "order c (map fst zs)" and "map Some xs = map ((!) c) (map fst zs)" and "sorted_wrt (<) (map snd zs)"
    and "\<forall>(f, u) \<in> set zs. usedAt (trace s) i (the (c ! f)) u"
  shows "\<exists>s' c' f. replacePageLRU cfg s (int i) = Ret (0, s') \<and>
    lruRel cfg (Suc i) s' (tl xs @ [trace s ! i]) \<and> vas s' = vas s \<and> placed cfg s' i c' f"
proof -
  note C = config_okD [OF assms(2,3)] config_cfg [OF assms(2)] and D = simrepD [OF assms(1)]
  have "length zs = length c" using order_full [OF assms(6,5)] by simp
  with C(8) obtain f u ys where zs: "zs = (f, u) # ys" by (cases zs) auto
  have f: "f < length c" using order_subset [OF assms(6)] zs by auto
  have v: "lruVictim cfg (int i) s = Ret (int f)"
    using lruVictim_oldest [OF assms(1-5)] assms(6,8,9) unfolding zs by blast
  let ?p = "trace s ! i" and ?a = "physOf cfg s i f"
  let ?c = "c[f := Some ?p]" and ?l = "loaded s i ?p f ?a"
  let ?pt = "map (\<lambda>e. if int f = ptFrameNum e \<and> int ?p \<noteq> ptPageNum e
      then e\<lparr>ptFrameNum := -1, ptPageNum := -1\<rparr> else e) (ptable ?l)"
  let ?s = "?l\<lparr>ptable := ?pt\<rparr>"
  have "lruEvict cfg (int i) (int ?p) (virtualAddress (vas s ! i) mod pageSizeBytes cfg) s = Ret ?s"
    using v C D(2) assms(3) f clearOthers_map [of "ptable ?l" "int f" "int ?p"]
    by (simp add: lruEvict_def loadPage_loaded physOf_def)
  then have st: "replacePageLRU cfg s (int i) = Ret (0, ?s)"
    using replaceWith_evict [OF assms(1-5)] by (simp add: replacePageLRU_def)
  have rep: "simrep ?s ?c"
  proof (rule simrep_replace [OF assms(1) f C(4) assms(4), where a = ?a])
    fix r assume r: "r < length (ptable s)"
    then show "ptFrameNum (ptable ?s ! r) =
        (if r = ?p then int f else if c ! f = Some r then -1 else ptFrameNum (ptable s ! r))"
      and "ptPageNum (ptable ?s ! r) =
        (if r = ?p then int ?p else if c ! f = Some r then -1 else ptPageNum (ptable s ! r))"
      using C(4) evict_entry [OF assms(1) f assms(4) r] by (auto simp: nth_list_update)
  qed (use C(4) in simp_all)
  have vas: "vas ?s = vas s" using vas_rewrite [OF assms(2,3)] by simp
  have pl: "placed cfg ?s i ?c f"
    using rep vas f D(2) by (intro placedI [OF _ assms(2,3)]) simp_all
  have "f \<notin> set (map fst ys)" using assms(6) zs by (auto simp: order_def)
  then have "lruRel cfg (Suc i) ?s (tl xs @ [?p])"
    using vas order_move [of c f "map fst ys" ?p] assms(6-9) zs
    by (intro lru_load_rel [OF pl _ assms(6) _ _ _ assms(4)]) (auto simp: trace_def map_tl)
  then show ?thesis using st pl vas by blast
qed

interpretation lru: page_policy replacePageLRU lruRel lruPolicy
proof unfold_locales
  fix cfg i s xs
  assume rel: "lruRel cfg i s xs" and i: "i < length (vas s)"
  from rel obtain c zs where R: "simrep s c" "config_ok cfg s c" "order c (map fst zs)"
    "map Some xs = map ((!) c) (map fst zs)" "sorted_wrt (<) (map snd zs)"
    "\<forall>(f, u) \<in> set zs. usedAt (trace s) i (the (c ! f)) u"
    unfolding lruRel_def by blast
  note P = order_pages [OF R(3,4)]
  have full: "length xs < nat (totalFrame cfg) \<longleftrightarrow> None \<in> set c"
    using order_full [OF R(3)] order_room [OF R(3)] P(2) config_cfg(2) [OF R(2)] by force
  show "\<exists>s' c f. replacePageLRU cfg s (int i) =
      Ret (of_bool (fst (lruPolicy cfg (trace s) i xs)), s') \<and>
      lruRel cfg (Suc i) s' (snd (lruPolicy cfg (trace s) i xs)) \<and> vas s' = vas s \<and> placed cfg s' i c f"
    using lru_hit [OF R(1,2) i _ R(3-6)] lru_free [OF R(1,2) i _ _ R(3-6)] lru_evict [OF R(1,2) i _ _ R(3-6)]
    by (simp add: lruPolicy_def Let_def P(1) full)
qed

lemma lru_start:
  assumes "ready cfg vs q"
  shows "lruRel cfg 0 (startSim cfg vs q) []"
  using ready_start [OF assms] unfolding lruRel_def
  by (intro exI [of _ "replicate (nat (totalFrame cfg)) None"] exI [of _ "[]"]) simp

text \<open>
  C4: LRU replacement. From the start state, the loop of \<open>main\<close> with \<open>replacePageLRU\<close>
  returns without undefined behaviour, its H/F column is the hit/fault sequence of the
  textbook least-recently-used policy, and rows and totals are right.
\<close>

theorem lru_correct:
  assumes "ready cfg vs q"
  shows "\<exists>t s'. simLoop (replacePageLRU cfg) cfg (zeroTotals, startSim cfg vs q) = Ret (t, s') \<and>
    totals_ok cfg vs
      (fst (hitsFrom (lruPolicy cfg (map (\<lambda>v. nat (vaPageNum v)) vs)) [0..<nat NUM_ADDRESSES] [])) t"
  using lru.simLoop_sim [OF lru_start [OF assms]] ready_start(4) [OF assms]
  by (simp add: trace_startSim)

theorem lru_correct_witness:
  "\<exists>t s'. simLoop (replacePageLRU demoConfig) demoConfig
      (zeroTotals, startSim demoConfig demoVas demoQueue) = Ret (t, s') \<and>
    totals_ok demoConfig demoVas
      (fst (hitsFrom (lruPolicy demoConfig (map (\<lambda>v. nat (vaPageNum v)) demoVas))
         [0..<nat NUM_ADDRESSES] [])) t"
  by (rule lru_correct [OF demo_ready])

end
