(* ===== verification/PageOptimal.thy ===== *)
theory PageOptimal
  imports PageRun
begin

section \<open>Optimal replacement (src/4/as4.c, replacePageOptimal)\<close>

text \<open>
  The source measures, for every frame, how far ahead its page is referenced next
  (\<open>5000\<close> when it is not referenced again) and evicts the frame with the largest
  distance; when two or more pages are not referenced again, the one whose frame comes
  first in the queue. The queue position it compares is an array index: it is the age of
  the frame only because this algorithm never dequeues, so that the front stays at 0.
\<close>

subsection \<open>The code\<close>

definition optDistBody ::
    "VirtualAddressInfo list \<Rightarrow> int \<Rightarrow> int \<Rightarrow> int \<Rightarrow> int \<times> int \<Rightarrow> (int \<times> int, int \<times> int) ctl cres" where
  "optDistBody vs currentIndex page j dn =
     cbind (aget vs j) (\<lambda>va.
       Ret (if vaPageNum va = page then Stop (j - currentIndex, snd dn)
            else Next (if j = NUM_ADDRESSES - 1 then (5000, snd dn + 1) else dn)))"

definition optDistance :: "VirtualAddressInfo list \<Rightarrow> int \<Rightarrow> int \<Rightarrow> (int \<times> int) cres" where
  "optDistance vs currentIndex page =
     cbind (cfor (optDistBody vs currentIndex page)
       (map int [nat currentIndex..<nat NUM_ADDRESSES]) (0, 0))
       (\<lambda>c. case c of Stop r \<Rightarrow> Ret r | Next r \<Rightarrow> Ret r)"

text \<open>The scan: distances, how many pages do not appear again, and the largest distance.\<close>

definition optScanBody ::
    "Config \<Rightarrow> int \<Rightarrow> Sim \<Rightarrow> int \<Rightarrow> int list \<times> int \<times> int \<times> int \<Rightarrow> (int list \<times> int \<times> int \<times> int) cres" where
  "optScanBody cfg currentIndex s i st =
     (case st of (distances, notAppearCount, maxDistanceFrame, maxDistanceFrameNum) \<Rightarrow>
       cbind (aget (frames s) i) (\<lambda>fr.
       cbind (pageNumforSearch (ptable s) (totalPage cfg) (frFrameNum fr)) (\<lambda>page.
       cbind (optDistance (vas s) currentIndex page) (\<lambda>(d, na).
       cbind (aset distances i d) (\<lambda>distances'.
         Ret (distances', notAppearCount + na,
              if maxDistanceFrame < d then (d, i) else (maxDistanceFrame, maxDistanceFrameNum)))))))"

definition optScan :: "Config \<Rightarrow> int \<Rightarrow> Sim \<Rightarrow> (int list \<times> int \<times> int \<times> int) cres" where
  "optScan cfg currentIndex s =
     cfold (optScanBody cfg currentIndex s) (range0 (totalFrame cfg))
       (replicate (nat (totalFrame cfg)) 0, 0, -1, 0)"

text \<open>Among the frames at distance 5000, the one with the least position in the queue.\<close>

definition optFirstOut :: "Config \<Rightarrow> int list \<Rightarrow> PageQueue \<Rightarrow> int cres" where
  "optFirstOut cfg distances q =
     cbind (cfold (\<lambda>k (firstOutPos, firstOutFrameNum).
         cbind (aget distances k) (\<lambda>d.
         if d = 5000 then
           cbind (findPositionInQueue q k) (\<lambda>pos.
           if pos = -1 then Ret (firstOutPos, firstOutFrameNum)
           else
             let (fp, ff) = (if firstOutPos = -1 then (pos, k) else (firstOutPos, firstOutFrameNum)) in
             Ret (if pos < fp then (pos, k) else (fp, ff)))
         else Ret (firstOutPos, firstOutFrameNum)))
       (range0 (totalFrame cfg)) (-1, -1)) (\<lambda>(_, f). Ret f)"

definition optVictimFrame :: "Config \<Rightarrow> int \<Rightarrow> Sim \<Rightarrow> int cres" where
  "optVictimFrame cfg currentIndex s =
     cbind (optScan cfg currentIndex s) (\<lambda>(distances, notAppearCount, _, maxDistanceFrameNum).
     if 1 < notAppearCount then optFirstOut cfg distances (queue s) else Ret maxDistanceFrameNum)"

definition optEvict :: "Config \<Rightarrow> int \<Rightarrow> int \<Rightarrow> int \<Rightarrow> Sim \<Rightarrow> Sim cres" where
  "optEvict cfg currentIndex pageNum offset s =
     cbind (optVictimFrame cfg currentIndex s) (\<lambda>f.
     cbind (loadPage s currentIndex pageNum f (pageSizeBytes cfg) offset) (\<lambda>s1.
     cbind (removeFrameFromQueue (queue s1) f) (\<lambda>q1.
     cbind (enqueueFrame f (s1\<lparr>queue := q1\<rparr>)) (\<lambda>s2.
     cbind (aget (frames s2) f) (\<lambda>fr.
     cbind (clearOthers (ptable s2) (totalPage cfg) (frFrameNum fr) pageNum) (\<lambda>pt.
       Ret (s2\<lparr>ptable := pt\<rparr>)))))))"

definition replacePageOptimal :: "Config \<Rightarrow> Sim \<Rightarrow> int \<Rightarrow> (int \<times> Sim) cres" where
  "replacePageOptimal cfg s currentIndex =
     replaceWith (\<lambda>_ s. Ret s) (\<lambda>_ i. enqueueFrame i) (optEvict cfg currentIndex) cfg s currentIndex"

subsection \<open>The policy\<close>

text \<open>How many references come before the next one to a page (all that are left if none is).\<close>

definition nextDist :: "nat list \<Rightarrow> nat \<Rightarrow> nat \<Rightarrow> nat" where
  "nextDist tr i p = length (takeWhile (\<lambda>x. x \<noteq> p) (drop i tr))"

text \<open>The page referenced furthest ahead; the oldest of them when several never are.\<close>

definition optVictim :: "nat list \<Rightarrow> nat \<Rightarrow> nat list \<Rightarrow> nat" where
  "optVictim tr i xs = hd (filter (\<lambda>p. \<forall>q \<in> set xs. nextDist tr i q \<le> nextDist tr i p) xs)"

definition optPolicy :: "nat list policy" where
  "optPolicy cfg tr i xs =
     (let p = tr ! i in
      if p \<in> set xs then (True, xs)
      else if length xs < nat (totalFrame cfg) then (False, xs @ [p])
      else (False, remove1 (optVictim tr i xs) xs @ [p]))"

definition optRel :: "Config \<Rightarrow> nat \<Rightarrow> Sim \<Rightarrow> nat list \<Rightarrow> bool" where
  "optRel cfg i s xs \<longleftrightarrow> (\<exists>c fs. simrep s c \<and> config_ok cfg s c \<and> order c fs \<and>
     qrep (queue s) (map int fs) \<and> maxSize (queue s) = int (length c) \<and>
     (fs = [] \<or> front (queue s) = 0) \<and> length (vas s) = nat NUM_ADDRESSES \<and>
     map Some xs = map ((!) c) fs)"

subsection \<open>The forward walk\<close>

definition dist5000 :: "nat list \<Rightarrow> nat \<Rightarrow> nat \<Rightarrow> int" where
  "dist5000 tr i p = (if p \<in> set (drop i tr) then int (nextDist tr i p) else 5000)"

lemma nextDist_le: "nextDist tr i p \<le> length tr - i"
  unfolding nextDist_def by (metis length_drop length_takeWhile_le)

lemma nextDist_less: "p \<in> set (drop i tr) \<longleftrightarrow> nextDist tr i p < length tr - i"
proof
  show "p \<in> set (drop i tr) \<Longrightarrow> nextDist tr i p < length tr - i"
    unfolding nextDist_def using takeWhile_split(1) [of p "drop i tr"] by simp
next
  assume less: "nextDist tr i p < length tr - i"
  show "p \<in> set (drop i tr)"
  proof (rule ccontr)
    assume "p \<notin> set (drop i tr)"
    then have "takeWhile (\<lambda>x. x \<noteq> p) (drop i tr) = drop i tr" by (auto simp: takeWhile_eq_all_conv)
    with less show False by (simp add: nextDist_def)
  qed
qed

lemma nextDist_nth: "p \<in> set (drop i tr) \<Longrightarrow> tr ! (i + nextDist tr i p) = p"
  using nextDist_less [of p i tr] nth_length_takeWhile [of "\<lambda>x. x \<noteq> p" "drop i tr"]
  by (simp add: nextDist_def)

lemma nextDist_before: "k < nextDist tr i p \<Longrightarrow> tr ! (i + k) \<noteq> p"
proof -
  assume k: "k < nextDist tr i p"
  then have "takeWhile (\<lambda>x. x \<noteq> p) (drop i tr) ! k = drop i tr ! k"
    by (simp add: nextDist_def takeWhile_nth)
  moreover have "takeWhile (\<lambda>x. x \<noteq> p) (drop i tr) ! k \<in> set (takeWhile (\<lambda>x. x \<noteq> p) (drop i tr))"
    using k by (simp add: nextDist_def)
  ultimately have "drop i tr ! k \<noteq> p" by (auto dest: set_takeWhileD)
  then show ?thesis using k nextDist_le [of tr i p] by simp
qed

text \<open>Different pages have different distances unless neither is referenced again.\<close>

lemma dist5000_inj:
  "dist5000 tr i p = dist5000 tr i q \<Longrightarrow> dist5000 tr i p \<noteq> 5000 \<Longrightarrow> p = q"
  by (metis dist5000_def nextDist_nth of_nat_eq_iff)

lemma dist5000_le_iff:
  assumes "length tr = nat NUM_ADDRESSES" and "i < length tr"
  shows "dist5000 tr i p \<le> dist5000 tr i q \<longleftrightarrow> nextDist tr i p \<le> nextDist tr i q"
    and "dist5000 tr i p \<le> 5000" and "0 \<le> dist5000 tr i p"
    and "dist5000 tr i p = 5000 \<longleftrightarrow> p \<notin> set (drop i tr)"
  using assms nextDist_less [of p i tr] nextDist_less [of q i tr] nextDist_le [of tr i p] nextDist_le [of tr i q]
  by (auto simp: dist5000_def NUM_ADDRESSES_def)

lemma optDistance_eq:
  assumes "length vs = nat NUM_ADDRESSES" and "i < length vs" and "\<forall>v \<in> set vs. 0 \<le> vaPageNum v"
  shows "optDistance vs (int i) (int p) =
    Ret (dist5000 (map (\<lambda>v. nat (vaPageNum v)) vs) i p,
         if p \<in> set (drop i (map (\<lambda>v. nat (vaPageNum v)) vs)) then 0 else 1)"
proof -
  let ?tr = "map (\<lambda>v. nat (vaPageNum v)) vs"
  let ?f = "optDistBody vs (int i) (int p)"
  have N: "length vs = 5000" "nat NUM_ADDRESSES = 5000" using assms(1) by (simp_all add: NUM_ADDRESSES_def)
  have pg: "vaPageNum (vs ! k) = int p \<longleftrightarrow> ?tr ! k = p" if "k < length vs" for k
    using assms(3) that nth_mem [OF that] by auto
  have skip: "cfor ?f (map int [i..<i + k]) (0, 0) =
      Ret (Next (if i + k = 5000 \<and> 0 < k then (5000, 1) else (0, 0)))"
    if "k \<le> nextDist ?tr i p" for k
    using that
  proof (induction k)
    case (Suc k)
    then have k: "i + k < length vs" "?tr ! (i + k) \<noteq> p"
      using nextDist_le [of ?tr i p] nextDist_before [of k ?tr i p] by auto
    then have "?f (int (i + k)) (0, 0) = Ret (Next (if Suc (i + k) = 5000 then (5000, 1) else (0, 0)))"
      using pg [OF k(1)] N by (simp add: optDistBody_def NUM_ADDRESSES_def nat_int_add)
    moreover have "i + k \<noteq> 5000" using k N by simp
    ultimately show ?case using Suc by (simp add: cfor_append del: of_nat_add)
  qed simp
  show ?thesis
  proof (cases "p \<in> set (drop i ?tr)")
    case True
    let ?n = "nextDist ?tr i p"
    have n: "i + ?n < length vs" "?tr ! (i + ?n) = p"
      using nextDist_less [of p i ?tr] nextDist_nth [OF True] True by auto
    have "[i..<5000] = [i..<i + ?n] @ (i + ?n) # [Suc (i + ?n)..<5000]"
      using n(1) N(1) upt_add_eq_append [of i "i + ?n" "5000 - (i + ?n)"] upt_conv_Cons [of "i + ?n" 5000] by simp
    moreover have "?f (int (i + ?n)) (0, 0) = Ret (Stop (int ?n, 0))"
      using pg [OF n(1)] n by (simp add: optDistBody_def nat_int_add)
    ultimately have "cfor ?f (map int [i..<5000]) (0, 0) = Ret (Stop (int ?n, 0))"
      using skip [of ?n] n(1) N(1) by (simp add: cfor_append del: of_nat_add)
    then show ?thesis using True N by (simp add: optDistance_def dist5000_def)
  next
    case False
    then have "nextDist ?tr i p = 5000 - i"
      using nextDist_less [of p i ?tr] nextDist_le [of ?tr i p] N by simp
    then have "cfor ?f (map int [i..<5000]) (0, 0) = Ret (Next (5000, 1))"
      using skip [of "5000 - i"] assms(2) N by simp
    then show ?thesis using False N by (simp add: optDistance_def dist5000_def)
  qed
qed

subsection \<open>The victim\<close>

text \<open>The distance of the page in a frame.\<close>

definition frameDist :: "nat list \<Rightarrow> nat \<Rightarrow> nat option list \<Rightarrow> nat \<Rightarrow> int" where
  "frameDist tr i c f = dist5000 tr i (the (c ! f))"

lemma optScan_eq:
  assumes "simrep s c" and "config_ok cfg s c" and "i < length (vas s)" and "None \<notin> set c"
    and "length (vas s) = nat NUM_ADDRESSES"
  defines "D \<equiv> frameDist (trace s) i c"
  shows "optScan cfg (int i) s = Ret (map D [0..<length c],
    int (length (filter (\<lambda>f. D f = 5000) [0..<length c])), fold (maxStep D) [0..<length c] (-1, 0))"
proof -
  note C = config_okD [OF assms(2,3)] config_cfg [OF assms(2)] and S = simrepD [OF assms(1)]
  let ?n = "length c"
  let ?F = "optScanBody cfg (int i) s"
  have body: "?F (int k) (ds, na, ma) = Ret (ds[k := D k], na + (if D k = 5000 then 1 else 0), maxStep D k ma)"
    if "k < ?n" "length ds = ?n" for k ds na ma
  proof -
    from assms(4) that obtain p where p: "c ! k = Some p" by (metis nth_mem option.exhaust)
    have tr: "trace s = map (\<lambda>v. nat (vaPageNum v)) (vas s)" by (simp add: trace_def)
    have "optDistance (vas s) (int i) (int p) = Ret (D k, if D k = 5000 then 1 else 0)"
      using optDistance_eq [OF assms(5,3) va_nonneg [OF assms(2)], of p] p assms(3,5)
        dist5000_le_iff(4) [of "trace s" i p]
      by (auto simp: D_def frameDist_def tr)
    then show ?thesis
      using that S(2) S(4) [OF that(1)] p C(7) pageNumforSearch_cached [OF assms(1) that(1) p]
      by (cases ma) (simp add: optScanBody_def maxStep_def)
  qed
  have "cfold ?F (map int [0..<k]) (replicate ?n 0, 0, -1, 0) =
      Ret (map D [0..<k] @ replicate (?n - k) 0, int (length (filter (\<lambda>f. D f = 5000) [0..<k])),
           fold (maxStep D) [0..<k] (-1, 0))" if "k \<le> ?n" for k
    using that
  proof (induction k)
    case (Suc k)
    let ?ds = "map D [0..<k] @ replicate (?n - k) 0"
    have "?ds[k := D k] = map D [0..<Suc k] @ replicate (?n - Suc k) 0"
      using Suc.prems by (simp add: list_update_append Suc_diff_Suc [symmetric])
    then show ?case using Suc body [of k ?ds] by (simp add: cfold_append)
  qed simp
  from this [of ?n] show ?thesis
    using C(6) unfolding optScan_def by (simp add: range0_of_nat)
qed

text \<open>The loop that keeps the least position among the frames that satisfy \<open>P\<close>.\<close>

definition minStep :: "(nat \<Rightarrow> bool) \<Rightarrow> (nat \<Rightarrow> int) \<Rightarrow> nat \<Rightarrow> int \<times> int \<Rightarrow> int \<times> int" where
  "minStep P pos k ma = (if P k \<and> (fst ma = -1 \<or> pos k < fst ma) then (pos k, int k) else ma)"

lemma fold_min:
  assumes "\<And>k. 0 \<le> pos k"
  shows "(\<forall>k < n. \<not> P k) \<and> fold (minStep P pos) [0..<n] (-1, -1) = (-1, -1) \<or>
    (\<exists>k < n. P k \<and> fold (minStep P pos) [0..<n] (-1, -1) = (pos k, int k) \<and>
       (\<forall>g < n. P g \<longrightarrow> pos k \<le> pos g))"
proof (induction n)
  case (Suc n)
  have step: "fold (minStep P pos) [0..<Suc n] (-1, -1) =
      minStep P pos n (fold (minStep P pos) [0..<n] (-1, -1))" by simp
  from Suc show ?case
  proof (elim disjE exE conjE)
    assume "\<forall>k < n. \<not> P k" "fold (minStep P pos) [0..<n] (-1, -1) = (-1, -1)"
    then show ?thesis unfolding step by (cases "P n") (auto simp: minStep_def less_Suc_eq)
  next
    fix k assume k: "k < n" "P k" "fold (minStep P pos) [0..<n] (-1, -1) = (pos k, int k)"
      "\<forall>g < n. P g \<longrightarrow> pos k \<le> pos g"
    have "minStep P pos n (pos k, int k) = (if P n \<and> pos n < pos k then (pos n, int n) else (pos k, int k))"
      using assms [of k] by (auto simp: minStep_def)
    then show ?thesis unfolding step k(3) using k(1,2,4)
      by (cases "P n \<and> pos n < pos k") (fastforce simp: less_Suc_eq)+
  qed
qed simp

definition qIndex :: "nat list \<Rightarrow> nat \<Rightarrow> int" where
  "qIndex fs f = int (length (takeWhile (\<lambda>x. x \<noteq> f) fs))"

lemma takeWhile_map_int:
  "length (takeWhile (\<lambda>x. x \<noteq> int f) (map int fs)) = length (takeWhile (\<lambda>x. x \<noteq> f) fs)"
  by (induction fs) auto

lemma optFirstOut_eq:
  assumes "totalFrame cfg = int n" and "length ds = n" and "qrep q (map int fs)" and "maxSize q = int n"
    and "front q = 0" and "\<And>f. f < n \<Longrightarrow> f \<in> set fs"
  shows "optFirstOut cfg ds q = Ret (snd (fold (minStep (\<lambda>k. ds ! k = 5000) (qIndex fs)) [0..<n] (-1, -1)))"
proof -
  have pos: "findPositionInQueue q (int k) = Ret (qIndex fs k)" if "k < n" for k
  proof -
    have k: "k \<in> set fs" using assms(6) that by blast
    have "length fs \<le> n" using qrep_length [OF assms(3)] assms(4) by simp
    then have "length (takeWhile (\<lambda>x. x \<noteq> k) fs) < n" using takeWhile_split(1) [OF k] by simp
    then show ?thesis
      using findPosition_qrep [OF assms(3), of "int k"] k assms(4,5)
      by (simp add: takeWhile_map_int qIndex_def image_iff)
  qed
  have nonneg: "qIndex fs k \<noteq> -1" for k by (simp add: qIndex_def)
  show ?thesis unfolding optFirstOut_def assms(1)
    using assms(2) pos nonneg
    by (subst cfold_fold [where g = "minStep (\<lambda>k. ds ! k = 5000) (qIndex fs)"])
      (auto simp: minStep_def Let_def case_prod_beta)
qed

lemma hd_filter_min:
  assumes "k \<in> set fs" and "P k" and "\<And>g. g \<in> set fs \<Longrightarrow> P g \<Longrightarrow> qIndex fs k \<le> qIndex fs g"
  shows "hd (filter P fs) = k"
proof -
  obtain as bs where fs: "fs = as @ k # bs" "k \<notin> set as" using split_list_first [OF assms(1)] by blast
  have "qIndex fs k = int (length as)" unfolding qIndex_def fs using fs(2) by (subst takeWhile_append2) auto
  moreover have "qIndex fs g < int (length as)" if "g \<in> set as" for g
    unfolding qIndex_def fs using that takeWhile_split(1) [OF that] by (subst takeWhile_append1) auto
  ultimately have "\<not> P g" if "g \<in> set as" for g using assms(3) [of g] that fs(1) by force
  then have "filter P as = []" by (simp add: filter_empty_conv)
  with fs(1) assms(2) show ?thesis by simp
qed

lemma optVictimFrame_eq:
  assumes "simrep s c" and "config_ok cfg s c" and "i < length (vas s)" and "None \<notin> set c"
    and "length (vas s) = nat NUM_ADDRESSES" and "order c fs" and "qrep (queue s) (map int fs)"
    and "maxSize (queue s) = int (length c)" and "front (queue s) = 0"
  defines "D \<equiv> frameDist (trace s) i c"
  shows "optVictimFrame cfg (int i) s = Ret (int (hd (filter (\<lambda>f. \<forall>g \<in> set fs. D g \<le> D f) fs)))"
proof -
  let ?n = "length c" and ?M = "\<lambda>f. \<forall>g \<in> set fs. D g \<le> D f"
  note C = config_cfg [OF assms(2)]
  have tr: "length (trace s) = nat NUM_ADDRESSES" "i < length (trace s)" using assms(3,5) by (simp_all add: trace_def)
  have fs: "f \<in> set fs \<longleftrightarrow> f < ?n" for f
    using order_mem [OF assms(6,4)] order_subset [OF assms(6)] by auto
  have D: "D f \<le> 5000" "0 \<le> D f" for f
    unfolding D_def frameDist_def using dist5000_le_iff(2,3) [OF tr] by simp_all
  have inj: "f = g" if fg: "f < ?n" "g < ?n" "D f = D g" "D f \<noteq> 5000" for f g
  proof -
    have "c ! f \<noteq> None" "c ! g \<noteq> None" using assms(4) fg(1,2) by (metis nth_mem)+
    then obtain p q where pq: "c ! f = Some p" "c ! g = Some q" by blast
    then have "p = q" using fg(3,4) dist5000_inj unfolding D_def frameDist_def by fastforce
    with pq show ?thesis using cache_inj [OF simrepD(1) [OF assms(1)] fg(1,2)] by simp
  qed
  have n: "0 < ?n" using C(4) by linarith
  have scan: "optScan cfg (int i) s = Ret (map D [0..<?n],
      int (length (filter (\<lambda>f. D f = 5000) [0..<?n])), fold (maxStep D) [0..<?n] (-1, 0))"
    unfolding D_def by (rule optScan_eq [OF assms(1-5)])
  have "-1 < D f" for f using D(2) [of f] by linarith
  then obtain k where k: "k < ?n" "fold (maxStep D) [0..<?n] (-1, 0) = (D k, int k)"
      "\<forall>f < ?n. D f \<le> D k" using fold_max [of ?n "-1" D 0] n by blast
  show ?thesis
  proof (cases "1 < int (length (filter (\<lambda>f. D f = 5000) [0..<?n]))")
    case True
    then have "filter (\<lambda>f. D f = 5000) [0..<?n] \<noteq> []" by auto
    then have ex: "\<exists>f < ?n. D f = 5000" by (auto simp: filter_empty_conv)
    then have max: "?M f \<longleftrightarrow> D f = 5000" if "f < ?n" for f using D(1) fs that by (metis order_antisym)
    let ?P = "\<lambda>k. map D [0..<?n] ! k = 5000"
    have "0 \<le> qIndex fs f" for f by (simp add: qIndex_def)
    from fold_min [of "qIndex fs" ?n ?P, OF this] ex obtain v where
      v: "v < ?n" "?P v" "fold (minStep ?P (qIndex fs)) [0..<?n] (-1, -1) = (qIndex fs v, int v)"
      "\<forall>g < ?n. ?P g \<longrightarrow> qIndex fs v \<le> qIndex fs g" by auto
    have "hd (filter ?M fs) = v"
      using v fs max D(1) by (intro hd_filter_min) auto
    moreover have "optFirstOut cfg (map D [0..<?n]) (queue s) = Ret (int v)"
      using optFirstOut_eq [OF C(2) _ assms(7,8,9), of "map D [0..<?n]"] fs v(3) by simp
    ultimately show ?thesis using scan True by (simp add: optVictimFrame_def k(2))
  next
    case False
    have "f = k" if f: "f < ?n" "?M f" for f
    proof (rule ccontr)
      assume "f \<noteq> k"
      have eq: "D f = D k" using f k(1,3) fs by (auto intro: order_antisym)
      then have "D k = 5000" using inj [OF f(1) k(1)] \<open>f \<noteq> k\<close> by auto
      then have "{f, k} \<subseteq> set (filter (\<lambda>f. D f = 5000) [0..<?n])" using eq f(1) k(1) by simp
      then have "card {f, k} \<le> card (set (filter (\<lambda>f. D f = 5000) [0..<?n]))"
        by (rule card_mono [OF finite_set])
      also have "\<dots> \<le> length (filter (\<lambda>f. D f = 5000) [0..<?n])" by (rule card_length)
      finally have "card {f, k} \<le> length (filter (\<lambda>f. D f = 5000) [0..<?n])" .
      with False \<open>f \<noteq> k\<close> show False by simp
    qed
    moreover have "?M k" using k(3) fs by simp
    ultimately have "hd (filter ?M fs) = k" using fs k(1) by (intro hd_filter_min) blast+
    then show ?thesis using scan False k(2) by (simp add: optVictimFrame_def)
  qed
qed

subsection \<open>Refinement\<close>

lemma map_remove1_inj: "inj_on h (insert x (set xs)) \<Longrightarrow> map h (remove1 x xs) = remove1 (h x) (map h xs)"
  by (induction xs) (auto simp: inj_on_def)

text \<open>The page the policy evicts is the page in the frame the code evicts.\<close>

lemma optVictim_frame:
  assumes "cache_ok m c" and "order c fs" and "map Some xs = map ((!) c) fs" and "fs \<noteq> []"
    and "length tr = nat NUM_ADDRESSES" and "i < length tr"
  defines "v \<equiv> hd (filter (\<lambda>f. \<forall>g \<in> set fs. frameDist tr i c g \<le> frameDist tr i c f) fs)"
  shows "v \<in> set fs" and "optVictim tr i xs = the (c ! v)"
    and "map Some (remove1 (optVictim tr i xs) xs) = map ((!) c) (remove1 v fs)"
proof -
  let ?M = "\<lambda>f. \<forall>g \<in> set fs. frameDist tr i c g \<le> frameDist tr i c f"
  let ?h = "\<lambda>f. the (c ! f)"
  have "finite (frameDist tr i c ` set fs)" "frameDist tr i c ` set fs \<noteq> {}" using assms(4) by auto
  then obtain f where "f \<in> set fs" "frameDist tr i c f = Max (frameDist tr i c ` set fs)"
    by (metis (no_types, lifting) Max_in imageE)
  then have "f \<in> set (filter ?M fs)" by simp
  then have ne: "filter ?M fs \<noteq> []" by (metis empty_iff empty_set)
  then have v: "v \<in> set (filter ?M fs)" unfolding v_def by (rule hd_in_set)
  then show mem: "v \<in> set fs" by simp
  have "xs = map the (map Some xs)" by (simp add: comp_def)
  then have xs: "xs = map ?h fs" unfolding assms(3) by (simp add: comp_def)
  have "filter (\<lambda>p. \<forall>q \<in> set xs. nextDist tr i q \<le> nextDist tr i p) xs = map ?h (filter ?M fs)"
    unfolding xs filter_map
    using dist5000_le_iff(1) [OF assms(5,6)] by (simp add: comp_def frameDist_def)
  then show ov: "optVictim tr i xs = ?h v"
    unfolding optVictim_def v_def using ne by (simp add: hd_map)
  have "inj_on ((!) c) (set fs)"
  proof (rule inj_onI)
    fix f g assume fg: "f \<in> set fs" "g \<in> set fs" "c ! f = c ! g"
    then have "f < length c" "g < length c" "c ! f \<noteq> None" using assms(2) unfolding order_def by blast+
    then show "f = g" using cache_inj [OF assms(1)] fg(3) by (metis not_None_eq)
  qed
  then have "map ((!) c) (remove1 v fs) = remove1 (c ! v) (map ((!) c) fs)"
    using mem by (intro map_remove1_inj) (simp add: insert_absorb)
  moreover have "c ! v = Some (?h v)" using mem assms(2) unfolding order_def by force
  moreover have "map Some (remove1 (?h v) xs) = remove1 (Some (?h v)) (map Some xs)"
    by (intro map_remove1_inj) (simp add: inj_on_def)
  ultimately show "map Some (remove1 (optVictim tr i xs) xs) = map ((!) c) (remove1 v fs)"
    using assms(3) ov by simp
qed

lemma opt_hit:
  assumes "simrep s c" and "config_ok cfg s c" and "i < length (vas s)" and "Some (trace s ! i) \<in> set c"
    and "order c fs" and "qrep (queue s) (map int fs)" and "maxSize (queue s) = int (length c)"
    and "fs = [] \<or> front (queue s) = 0" and "length (vas s) = nat NUM_ADDRESSES"
    and "map Some xs = map ((!) c) fs"
  shows "\<exists>s' c' f. replacePageOptimal cfg s (int i) = Ret (1, s') \<and> optRel cfg (Suc i) s' xs \<and>
    vas s' = vas s \<and> placed cfg s' i c' f"
proof -
  from assms(4) obtain f where f: "f < length c" "c ! f = Some (trace s ! i)" using frameOf_ex by blast
  let ?s = "touch s f (physOf cfg s i f)"
  have pl: "placed cfg ?s i c f" by (rule placed_touch [OF assms(1-3) f])
  then have "optRel cfg (Suc i) ?s xs"
    using assms(5-10) unfolding optRel_def placed_def by (intro exI [of _ c] exI [of _ fs]) simp
  then show ?thesis using replaceWith_hit [OF assms(1-3) f] pl by (auto simp: replacePageOptimal_def)
qed

lemma opt_free:
  assumes "simrep s c" and "config_ok cfg s c" and "i < length (vas s)" and "Some (trace s ! i) \<notin> set c"
    and "None \<in> set c"
    and "order c fs" and "qrep (queue s) (map int fs)" and "maxSize (queue s) = int (length c)"
    and "fs = [] \<or> front (queue s) = 0" and "length (vas s) = nat NUM_ADDRESSES"
    and "map Some xs = map ((!) c) fs"
  shows "\<exists>s' c' f. replacePageOptimal cfg s (int i) = Ret (0, s') \<and>
    optRel cfg (Suc i) s' (xs @ [trace s ! i]) \<and> vas s' = vas s \<and> placed cfg s' i c' f"
proof -
  from first_free [OF assms(5)] obtain f where f: "f < length c" "c ! f = None" "\<forall>g < f. c ! g \<noteq> None"
    by blast
  let ?p = "trace s ! i" and ?s = "loaded s i (trace s ! i) f (physOf cfg s i f)"
  let ?c = "c[f := Some ?p]"
  have pl: "placed cfg ?s i ?c f" by (rule placed_loaded [OF assms(1-3) f(1,2) assms(4)])
  have vas: "vas ?s = vas s" using vas_rewrite [OF assms(2,3)] by simp
  have room: "length fs < nat (maxSize (queue s))" using order_room [OF assms(6,5)] assms(8) by simp
  obtain q where q: "enqueue (queue s) (int f) = Ret (0, q)" "qrep q (map int (fs @ [f]))"
      "maxSize q = maxSize (queue s)"
    using enqueue_qrep [OF assms(7), of "int f"] room by auto
  have front: "front q = 0"
    using enqueue_front [OF q(1)] assms(9) qrep_empty_iff [OF assms(7)] by (cases "fs = []") auto
  have st: "replacePageOptimal cfg s (int i) = Ret (0, ?s\<lparr>queue := q\<rparr>)"
    using replaceWith_free [OF assms(1-4) f] q(1) by (simp add: replacePageOptimal_def enqueueFrame_def)
  have "f \<notin> set fs" using assms(6) f(2) unfolding order_def by blast
  then have "map Some (xs @ [?p]) = map ((!) ?c) (fs @ [f])"
    using assms(11) f(1) by (simp add: map_nth_update_other)
  then have "optRel cfg (Suc i) (?s\<lparr>queue := q\<rparr>) (xs @ [?p])"
    using pl q(2,3) front assms(8,10) vas order_load [OF assms(6) f(1,2)] unfolding optRel_def
    by (intro exI [of _ ?c] exI [of _ "fs @ [f]"]) (simp add: placed_def del: map_append)
  moreover have "placed cfg (?s\<lparr>queue := q\<rparr>) i ?c f" "vas (?s\<lparr>queue := q\<rparr>) = vas s" using pl vas by simp_all
  ultimately show ?thesis using st by blast
qed

lemma order_evict:
  assumes "order c fs" and "v \<in> set fs"
  shows "order (c[v := Some p]) (remove1 v fs @ [v])"
proof -
  have "v < length c" using order_subset [OF assms(1)] assms(2) by auto
  moreover have "set (remove1 v fs) = set fs - {v}" using assms(1) by (simp add: order_def)
  ultimately show ?thesis
    using assms unfolding order_def by (subst occupied_update) auto
qed

lemma opt_evict:
  assumes "simrep s c" and "config_ok cfg s c" and "i < length (vas s)" and "Some (trace s ! i) \<notin> set c"
    and "None \<notin> set c"
    and "order c fs" and "qrep (queue s) (map int fs)" and "maxSize (queue s) = int (length c)"
    and "fs = [] \<or> front (queue s) = 0" and "length (vas s) = nat NUM_ADDRESSES"
    and "map Some xs = map ((!) c) fs"
  shows "\<exists>s' c' f. replacePageOptimal cfg s (int i) = Ret (0, s') \<and>
    optRel cfg (Suc i) s' (remove1 (optVictim (trace s) i xs) xs @ [trace s ! i]) \<and>
    vas s' = vas s \<and> placed cfg s' i c' f"
proof -
  note C = config_okD [OF assms(2,3)] config_cfg [OF assms(2)] and D = simrepD [OF assms(1)]
  have lfs: "length fs = length c" by (rule order_full [OF assms(6,5)])
  have ne: "fs \<noteq> []" and fr: "front (queue s) = 0" using lfs C(8) assms(9) by auto
  define v where "v = hd (filter (\<lambda>f. \<forall>g \<in> set fs. frameDist (trace s) i c g \<le> frameDist (trace s) i c f) fs)"
  have tr: "length (trace s) = nat NUM_ADDRESSES" "i < length (trace s)" using assms(3,10) by (simp_all add: trace_def)
  note V = optVictim_frame [OF D(1) assms(6,11) ne tr, folded v_def]
  have vic: "optVictimFrame cfg (int i) s = Ret (int v)"
    unfolding v_def by (rule optVictimFrame_eq [OF assms(1-3,5,10,6-8) fr])
  have v: "v < length c" using V(1) order_subset [OF assms(6)] by auto
  let ?p = "trace s ! i" and ?a = "physOf cfg s i v"
  let ?c = "c[v := Some ?p]" and ?l = "loaded s i ?p v ?a"
  let ?fs = "remove1 v fs @ [v]"
  have rm: "remove1 (int v) (map int fs) = map int (remove1 v fs)"
    by (subst map_remove1_inj) (simp_all add: inj_on_def)
  have "3 \<le> length (map int fs)" using lfs C(8) by simp
  with remove_qrep [OF assms(7), of "int v"] V(1) obtain q1 where
    q1: "removeFrameFromQueue (queue s) (int v) = Ret q1" "qrep q1 (map int (remove1 v fs))"
      "maxSize q1 = maxSize (queue s)" "front q1 = 0"
    using rm fr by auto
  have "length (remove1 v fs) < nat (maxSize q1)"
    using V(1) lfs v q1(3) assms(8) by (simp add: length_remove1)
  with enqueue_qrep [OF q1(2), of "int v"] obtain q2 where
    q2: "enqueue q1 (int v) = Ret (0, q2)" "qrep q2 (map int ?fs)" "maxSize q2 = maxSize q1" by auto
  have fr2: "front q2 = 0" using enqueue_front [OF q2(1)] q1(4) by simp
  let ?pt = "map (\<lambda>e. if int v = ptFrameNum e \<and> int ?p \<noteq> ptPageNum e
      then e\<lparr>ptFrameNum := -1, ptPageNum := -1\<rparr> else e) (ptable ?l)"
  let ?t = "?l\<lparr>ptable := ?pt\<rparr>"
  let ?s = "?l\<lparr>queue := q2, ptable := ?pt\<rparr>"
  have "optEvict cfg (int i) (int ?p) (virtualAddress (vas s ! i) mod pageSizeBytes cfg) s = Ret ?s"
    using vic C D(2) assms(3) v q1(1) q2(1) clearOthers_map [of "ptable ?l" "int v" "int ?p"]
    by (simp add: optEvict_def loadPage_loaded physOf_def enqueueFrame_def)
  then have st: "replacePageOptimal cfg s (int i) = Ret (0, ?s)"
    using replaceWith_evict [OF assms(1-5)] by (simp add: replacePageOptimal_def)
  have rep: "simrep ?s ?c"
  proof (rule simrep_replace [OF assms(1) v C(4) assms(4), where a = ?a])
    fix r assume r: "r < length (ptable s)"
    then show "ptFrameNum (ptable ?s ! r) =
        (if r = ?p then int v else if c ! v = Some r then -1 else ptFrameNum (ptable s ! r))"
      and "ptPageNum (ptable ?s ! r) =
        (if r = ?p then int ?p else if c ! v = Some r then -1 else ptPageNum (ptable s ! r))"
      using C(4) evict_entry [OF assms(1) v assms(4) r] by (auto simp: nth_list_update)
  qed (use C(4) in simp_all)
  have vas: "vas ?s = vas s" using vas_rewrite [OF assms(2,3)] by simp
  have pl: "placed cfg ?s i ?c v"
    using rep vas v D(2) by (intro placedI [OF _ assms(2,3)]) simp_all
  have "v \<notin> set (remove1 v fs)" using assms(6) by (simp add: order_def)
  then have "map Some (remove1 (optVictim (trace s) i xs) xs @ [?p]) = map ((!) ?c) ?fs"
    using V(3) v by (simp add: map_nth_update_other)
  then have "optRel cfg (Suc i) ?s (remove1 (optVictim (trace s) i xs) xs @ [?p])"
    using pl q2(2,3) q1(3) fr2 assms(8,10) vas order_evict [OF assms(6) V(1)] unfolding optRel_def
    by (intro exI [of _ ?c] exI [of _ ?fs]) (simp add: placed_def del: map_append)
  then show ?thesis using st pl vas by blast
qed

interpretation opt: page_policy replacePageOptimal optRel optPolicy
proof unfold_locales
  fix cfg i s xs
  assume rel: "optRel cfg i s xs" and i: "i < length (vas s)"
  from rel obtain c fs where R: "simrep s c" "config_ok cfg s c" "order c fs"
    "qrep (queue s) (map int fs)" "maxSize (queue s) = int (length c)" "fs = [] \<or> front (queue s) = 0"
    "length (vas s) = nat NUM_ADDRESSES" "map Some xs = map ((!) c) fs"
    unfolding optRel_def by blast
  note P = order_pages [OF R(3,8)]
  have full: "length xs < nat (totalFrame cfg) \<longleftrightarrow> None \<in> set c"
    using order_full [OF R(3)] order_room [OF R(3)] P(2) config_cfg(2) [OF R(2)] by force
  show "\<exists>s' c f. replacePageOptimal cfg s (int i) =
      Ret (of_bool (fst (optPolicy cfg (trace s) i xs)), s') \<and>
      optRel cfg (Suc i) s' (snd (optPolicy cfg (trace s) i xs)) \<and> vas s' = vas s \<and> placed cfg s' i c f"
    using opt_hit [OF R(1,2) i _ R(3-8)] opt_free [OF R(1,2) i _ _ R(3-8)] opt_evict [OF R(1,2) i _ _ R(3-8)]
    by (simp add: optPolicy_def Let_def P(1) full)
qed

lemma opt_start:
  assumes "ready cfg vs q"
  shows "optRel cfg 0 (startSim cfg vs q) []"
  using ready_start [OF assms] assms unfolding optRel_def
  by (intro exI [of _ "replicate (nat (totalFrame cfg)) None"] exI [of _ "[]"]) (simp add: ready_def)

text \<open>
  C2: optimal replacement. From the start state, the loop of \<open>main\<close> with
  \<open>replacePageOptimal\<close> returns without undefined behaviour; its H/F column is the hit/fault
  sequence of the policy that evicts the page referenced furthest ahead, and the longest
  loaded one among pages that are never referenced again; rows and totals are right.
\<close>

theorem opt_correct:
  assumes "ready cfg vs q"
  shows "\<exists>t s'. simLoop (replacePageOptimal cfg) cfg (zeroTotals, startSim cfg vs q) = Ret (t, s') \<and>
    totals_ok cfg vs
      (fst (hitsFrom (optPolicy cfg (map (\<lambda>v. nat (vaPageNum v)) vs)) [0..<nat NUM_ADDRESSES] [])) t"
  using opt.simLoop_sim [OF opt_start [OF assms]] ready_start(4) [OF assms]
  by (simp add: trace_startSim)

theorem opt_correct_witness:
  "\<exists>t s'. simLoop (replacePageOptimal demoConfig) demoConfig
      (zeroTotals, startSim demoConfig demoVas demoQueue) = Ret (t, s') \<and>
    totals_ok demoConfig demoVas
      (fst (hitsFrom (optPolicy demoConfig (map (\<lambda>v. nat (vaPageNum v)) demoVas))
         [0..<nat NUM_ADDRESSES] [])) t"
  by (rule opt_correct [OF demo_ready])

end
