(* ===== verification/C_IO.thy ===== *)
theory C_IO
  imports C_Prelude
begin

section \<open>Formatted input and output of the C library\<close>

text \<open>
  What the programs use of \<open>stdio\<close>: the \<open>%d\<close> and \<open>%s\<close> conversions of \<open>scanf\<close> on a
  character stream, and \<open>%d\<close>, \<open>%lu\<close> and \<open>%-10d\<close> of \<open>printf\<close>. A conversion ends in
  end of file, in a matching failure (the offending character stays in the stream), or with
  a value; a number that does not fit an \<open>int\<close> is left undefined by the C standard. The
  round trip \<open>scan_show\<close> is what lets a program read back the file it wrote.
\<close>

subsection \<open>Characters\<close>

definition isspace :: "char \<Rightarrow> bool" where
  "isspace c \<longleftrightarrow> c = CHR '' '' \<or> (9 \<le> (of_char c :: nat) \<and> (of_char c :: nat) \<le> 13)"

definition isdigit :: "char \<Rightarrow> bool" where
  "isdigit c \<longleftrightarrow> 48 \<le> (of_char c :: nat) \<and> (of_char c :: nat) \<le> 57"

definition digitVal :: "char \<Rightarrow> int" where
  "digitVal c = int (of_char c) - 48"

definition digitChar :: "nat \<Rightarrow> char" where
  "digitChar d = char_of (48 + d)"

definition newline :: char where
  "newline = CHR 0x0A"

definition int_range :: "int \<Rightarrow> bool" where
  "int_range n \<longleftrightarrow> - 2147483648 \<le> n \<and> n \<le> 2147483647"

definition long_range :: "int \<Rightarrow> bool" where
  "long_range n \<longleftrightarrow> - (2 ^ 63) \<le> n \<and> n < 2 ^ 63"

subsection \<open>Reading\<close>

text \<open>The scanners take the range of the type a number is stored in.\<close>

datatype scanned = ScanEOF | ScanFail string | ScanVal int string | ScanOverflow

definition digitsVal :: "string \<Rightarrow> int" where
  "digitsVal ds = foldl (\<lambda>n c. 10 * n + digitVal c) 0 ds"

definition scanDigits :: "(int \<Rightarrow> bool) \<Rightarrow> int \<Rightarrow> string \<Rightarrow> scanned" where
  "scanDigits fits sg s =
     (let ds = takeWhile isdigit s in
      if ds = [] then ScanFail s
      else if fits (sg * digitsVal ds) then ScanVal (sg * digitsVal ds) (dropWhile isdigit s)
      else ScanOverflow)"

definition scanNum :: "(int \<Rightarrow> bool) \<Rightarrow> string \<Rightarrow> scanned" where
  "scanNum fits inp =
     (case dropWhile isspace inp of
        [] \<Rightarrow> ScanEOF
      | c # s \<Rightarrow> if c = CHR ''-'' then scanDigits fits (-1) s
                 else if c = CHR ''+'' then scanDigits fits 1 s
                 else scanDigits fits 1 (c # s))"

text \<open>\<open>%d\<close> and \<open>%ld\<close>; a suppressed conversion (\<open>%*d\<close>) stores nothing and always fits.\<close>

definition scanInt :: "string \<Rightarrow> scanned" where
  "scanInt = scanNum int_range"

definition scanLong :: "string \<Rightarrow> scanned" where
  "scanLong = scanNum long_range"

definition scanSkip :: "string \<Rightarrow> scanned" where
  "scanSkip = scanNum (\<lambda>_. True)"

text \<open>\<open>%s\<close>: a maximal run of characters that are not white space; \<open>None\<close> at end of file.\<close>

definition scanWord :: "string \<Rightarrow> (string \<times> string) option" where
  "scanWord inp =
     (let s = dropWhile isspace inp in
      if s = [] then None
      else Some (takeWhile (\<lambda>c. \<not> isspace c) s, dropWhile (\<lambda>c. \<not> isspace c) s))"

subsection \<open>Writing\<close>

fun showNat :: "nat \<Rightarrow> string" where
  "showNat n = (if n < 10 then [digitChar n] else showNat (n div 10) @ [digitChar (n mod 10)])"

declare showNat.simps [simp del]

definition showInt :: "int \<Rightarrow> string" where
  "showInt n = (if n < 0 then CHR ''-'' # showNat (nat (- n)) else showNat (nat n))"

definition padRight :: "nat \<Rightarrow> string \<Rightarrow> string" where
  "padRight w s = s @ replicate (w - length s) CHR '' ''"

subsection \<open>Round trip\<close>

lemma digitChar_digit: "d < 10 \<Longrightarrow> isdigit (digitChar d) \<and> digitVal (digitChar d) = int d"
  by (simp add: isdigit_def digitVal_def digitChar_def of_char_of)

lemma showNat_digits: "list_all isdigit (showNat n) \<and> showNat n \<noteq> []"
proof (induction n rule: showNat.induct)
  case (1 n)
  then show ?case by (subst (1 2) showNat.simps) (simp add: digitChar_digit)
qed

lemma digitsVal_snoc: "digitsVal (ds @ [c]) = 10 * digitsVal ds + digitVal c"
  by (simp add: digitsVal_def)

lemma digitsVal_showNat: "digitsVal (showNat n) = int n"
proof (induction n rule: showNat.induct)
  case (1 n)
  show ?case
  proof (cases "n < 10")
    case True
    then show ?thesis by (subst showNat.simps) (simp add: digitsVal_def digitChar_digit)
  next
    case False
    with 1 have "digitsVal (showNat (n div 10)) = int (n div 10)" by blast
    with False show ?thesis
      by (subst showNat.simps) (simp add: digitsVal_snoc digitChar_digit zdiv_int zmod_int)
  qed
qed

lemma digit_not_space: "isdigit c \<Longrightarrow> \<not> isspace c"
  by (auto simp: isdigit_def isspace_def)

lemma takeWhile_digits: "list_all P xs \<Longrightarrow> rest = [] \<or> \<not> P (hd rest) \<Longrightarrow>
    takeWhile P (xs @ rest) = xs \<and> dropWhile P (xs @ rest) = rest"
  by (induction xs) (cases rest, auto)+

lemma span_until: "x \<notin> set a \<Longrightarrow> takeWhile (\<lambda>c. c \<noteq> x) (a @ x # r) = a"
  "x \<notin> set a \<Longrightarrow> dropWhile (\<lambda>c. c \<noteq> x) (a @ x # r) = x # r"
  by (induction a) auto

lemma newline_facts [simp]: "isspace newline" "\<not> isdigit newline"
  by (simp_all add: isspace_def isdigit_def newline_def of_char_of)

lemma scanNum_show:
  assumes "fits (int n)" and "rest = [] \<or> \<not> isdigit (hd rest)" and "list_all isspace ws"
  shows "scanNum fits (ws @ showNat n @ rest) = ScanVal (int n) rest"
proof -
  from showNat_digits [of n] obtain c cs where s: "showNat n = c # cs" "isdigit c"
    by (cases "showNat n") auto
  then have "dropWhile isspace (ws @ showNat n @ rest) = showNat n @ rest"
    using assms(3) by (induction ws) (auto simp: digit_not_space)
  moreover have "c \<noteq> CHR ''-'' \<and> c \<noteq> CHR ''+''" using s(2) by (auto simp: isdigit_def)
  moreover have "scanDigits fits 1 (showNat n @ rest) = ScanVal (int n) rest"
    using takeWhile_digits [of isdigit "showNat n" rest] showNat_digits [of n] assms(1,2)
    by (simp add: scanDigits_def digitsVal_showNat)
  ultimately show ?thesis using s by (simp add: scanNum_def)
qed

lemma scanNum_show_neg:
  assumes "fits (- int n)" and "rest = [] \<or> \<not> isdigit (hd rest)" and "list_all isspace ws"
  shows "scanNum fits (ws @ CHR ''-'' # showNat n @ rest) = ScanVal (- int n) rest"
proof -
  have "dropWhile isspace (ws @ CHR ''-'' # showNat n @ rest) = CHR ''-'' # showNat n @ rest"
    using assms(3) by (induction ws) (auto simp: isspace_def)
  then show ?thesis
    using takeWhile_digits [of isdigit "showNat n" rest] showNat_digits [of n] assms(1,2)
    by (simp add: scanNum_def scanDigits_def digitsVal_showNat)
qed

lemma scanNum_showInt:
  assumes "fits v" and "rest = [] \<or> \<not> isdigit (hd rest)" and "list_all isspace ws"
  shows "scanNum fits (ws @ showInt v @ rest) = ScanVal v rest"
  using scanNum_show [of fits "nat v" rest ws] scanNum_show_neg [of fits "nat (- v)" rest ws] assms
  by (simp add: showInt_def)

lemmas scan_show = scanNum_show [of int_range, folded scanInt_def]

text \<open>Every conversion that yields a value consumes input.\<close>

lemma scanDigits_shorter: "scanDigits fits sg s = ScanVal v r \<Longrightarrow> length r < length s"
proof -
  assume a: "scanDigits fits sg s = ScanVal v r"
  then have ne: "takeWhile isdigit s \<noteq> []" and r: "r = dropWhile isdigit s"
    by (auto simp: scanDigits_def Let_def split: if_splits)
  have "length s = length (takeWhile isdigit s) + length r"
    unfolding r by (metis length_append takeWhile_dropWhile_id)
  with ne show ?thesis by simp
qed

lemma scanInt_shorter: "scanInt s = ScanVal v r \<Longrightarrow> length r < length s"
proof -
  assume a: "scanInt s = ScanVal v r"
  obtain c t where d: "dropWhile isspace s = c # t"
    using a by (cases "dropWhile isspace s") (auto simp: scanInt_def scanNum_def)
  have "length (c # t) \<le> length s" unfolding d [symmetric] by (rule length_dropWhile_le)
  moreover have "length r < length (c # t)"
    using a d scanDigits_shorter [of int_range "-1" t v r] scanDigits_shorter [of int_range 1 t v r]
      scanDigits_shorter [of int_range 1 "c # t" v r]
    by (auto simp: scanInt_def scanNum_def split: if_splits)
  ultimately show ?thesis by simp
qed

end
