(* ===== verification/PageMain.thy ===== *)
theory PageMain
  imports PageFIFO PageSC PageLRU PageOptimal C_IO
begin

section \<open>The simulator program (src/4/as4.c, main)\<close>

text \<open>
  The whole of \<open>main\<close>: the menu, the input file (generated or existing), the address check,
  the page numbers, the choice of algorithm, the simulation and the output file. What the
  program gets from outside is the record \<open>World\<close>: the characters typed, the readable
  files, which files can be opened for writing, the results of \<open>rand\<close>, and whether
  \<open>malloc\<close> succeeds for the queue. The prompts are not modelled.
\<close>

record World =
  stdinText :: string
  fileText :: "string \<Rightarrow> string option"
  writable :: "string \<Rightarrow> bool"
  rands :: "nat \<Rightarrow> nat"
  reopens :: bool
  mallocOk :: bool

subsection \<open>The menu\<close>

text \<open>
  The loop that asks again. After end of file or a matching failure the variable keeps its
  rejected value and the stream stays where it is: the loop never ends.
\<close>

function askAgain :: "int \<Rightarrow> int \<Rightarrow> int \<Rightarrow> string \<Rightarrow> (int \<times> string) cres" where
  "askAgain lo hi v inp =
     (if v < lo \<or> v > hi
      then case scanInt inp of ScanVal w r \<Rightarrow> askAgain lo hi w r
           | ScanOverflow \<Rightarrow> UB | ScanEOF \<Rightarrow> Diverge | ScanFail _ \<Rightarrow> Diverge
      else Ret (v, inp))"
  by pat_completeness auto
termination
  by (relation "measure (\<lambda>(_, _, _, inp). length inp)") (auto simp: scanInt_shorter)

declare askAgain.simps [simp del]

text \<open>The variables of the menu have no value before the first \<open>scanf\<close> stores one.\<close>

definition ask :: "int \<Rightarrow> int \<Rightarrow> string \<Rightarrow> (int \<times> string) cres" where
  "ask lo hi inp = (case scanInt inp of ScanVal v r \<Rightarrow> askAgain lo hi v r | _ \<Rightarrow> UB)"

definition bitsOf :: "int \<Rightarrow> nat" where
  "bitsOf choice = (if choice = 1 then 18 else if choice = 2 then 19 else 20)"

definition pageKB :: "int \<Rightarrow> int" where
  "pageKB choice = (if choice = 1 then 1 else if choice = 2 then 2 else 4)"

definition memoryKB :: "int \<Rightarrow> int" where
  "memoryKB choice = (if choice = 1 then 32 else 64)"

definition mkConfig :: "int \<Rightarrow> int \<Rightarrow> int \<Rightarrow> Config cres" where
  "mkConfig b p m =
     cbind (cdiv (2 ^ bitsOf b) (pageKB p * 1024)) (\<lambda>tp.
     cbind (cdiv (memoryKB m) (pageKB p)) (\<lambda>tf.
       Ret \<lparr>totalFrame = tf, totalPage = tp, pageSizeBytes = pageKB p * 1024\<rparr>))"

subsection \<open>The input file\<close>

definition addressLines :: "nat list \<Rightarrow> string" where
  "addressLines as = concat (map (\<lambda>a. showNat a @ [newline]) as)"

definition generateInput :: "(nat \<Rightarrow> nat) \<Rightarrow> nat \<Rightarrow> string" where
  "generateInput rand bits = addressLines (map (\<lambda>i. rand i mod 2 ^ bits) [0..<nat NUM_ADDRESSES])"

text \<open>The name goes into a buffer of 256 characters, its terminator included.\<close>

definition openInput :: "World \<Rightarrow> nat \<Rightarrow> int \<Rightarrow> string \<Rightarrow> string cres" where
  "openInput w bits fileOption inp =
     (if fileOption = 1 then
        if \<not> writable w ''input.in'' then Exit 1
        else if \<not> reopens w then Exit 1
        else Ret (generateInput (rands w) bits)
      else case scanWord inp of
        None \<Rightarrow> UB
      | Some (fileName, _) \<Rightarrow>
          if 256 \<le> length fileName then UB
          else case fileText w fileName of None \<Rightarrow> Exit 1 | Some txt \<Rightarrow> Ret txt)"

definition readVirtualAddress ::
    "string \<Rightarrow> VirtualAddressInfo list \<Rightarrow> int \<Rightarrow> (bool \<times> string \<times> VirtualAddressInfo list \<times> int) cres" where
  "readVirtualAddress file vs count =
     (if count < NUM_ADDRESSES
      then case scanInt file of
          ScanEOF \<Rightarrow> Ret (False, [], vs, count)
        | ScanFail r \<Rightarrow> Ret (True, r, vs, count + 1)
        | ScanVal v r \<Rightarrow>
            cbind (aget vs count) (\<lambda>e.
            cbind (aset vs count (e\<lparr>virtualAddress := v\<rparr>)) (\<lambda>vs'. Ret (True, r, vs', count + 1)))
        | ScanOverflow \<Rightarrow> UB
      else Ret (False, file, vs, count))"

lemma readVirtualAddress_count:
  "readVirtualAddress f vs n = Ret (True, f', vs', n') \<Longrightarrow> n < NUM_ADDRESSES \<and> n' = n + 1"
  by (auto simp: readVirtualAddress_def cbind_Ret_iff split: if_splits scanned.splits)

text \<open>The reading loop: an address outside the chosen length ends the program.\<close>

function readLoop ::
    "nat \<Rightarrow> string \<Rightarrow> VirtualAddressInfo list \<Rightarrow> int \<Rightarrow> VirtualAddressInfo list cres" where
  "readLoop bits file vs count =
     cbind (readVirtualAddress file vs count) (\<lambda>(more, file', vs', count').
       if \<not> more then Ret vs'
       else cbind (aget vs' (count' - 1)) (\<lambda>e.
         if virtualAddress e < 0 \<or> virtualAddress e > 2 ^ bits - 1 then Exit 1
         else readLoop bits file' vs' count'))"
  by pat_completeness auto
termination
  by (relation "measure (\<lambda>(_, _, _, n). nat (NUM_ADDRESSES - n))")
    (auto dest!: readVirtualAddress_count)

declare readLoop.simps [simp del]

definition setPageNums :: "int \<Rightarrow> VirtualAddressInfo list \<Rightarrow> VirtualAddressInfo list cres" where
  "setPageNums psb vs =
     cfold (\<lambda>i xs. cbind (aget xs i) (\<lambda>e. cbind (cdiv (virtualAddress e) psb) (\<lambda>p.
       aset xs i (e\<lparr>vaPageNum := p\<rparr>)))) (range0 NUM_ADDRESSES) vs"

subsection \<open>The output file\<close>

definition outName :: "int \<Rightarrow> string" where
  "outName alg = (if alg = 1 then ''output.opt'' else if alg = 2 then ''output.fifo''
     else if alg = 3 then ''output.lru'' else ''output.sc'')"

definition headerText :: string where
  "headerText = padRight 10 ''No.'' @ padRight 10 ''V.A.'' @ padRight 10 ''Page No.'' @
     padRight 10 ''Frame No.'' @ padRight 10 ''P.A.'' @ ''Page Fault'' @ [newline]"

definition rowText :: "Row \<Rightarrow> string" where
  "rowText r = padRight 10 (showInt (rowNo r)) @ padRight 10 (showInt (rowVA r)) @
     padRight 10 (showInt (rowPage r)) @ padRight 10 (showInt (rowFrame r)) @
     padRight 10 (showInt (rowPA r)) @ padRight 10 [rowChar r] @ [newline]"

definition outputText :: "Totals \<Rightarrow> string" where
  "outputText t = headerText @ concat (map (\<lambda>r. rowText r @
     (if rowNo r = 5000
      then ''Total Number of Page Faults: '' @ showInt (pageFaults t) @ [newline] else [])) (rows t))"

subsection \<open>The program\<close>

definition stepOf :: "int \<Rightarrow> bool \<Rightarrow> Config \<Rightarrow> Sim \<Rightarrow> int \<Rightarrow> (int \<times> Sim) cres" where
  "stepOf alg mok cfg =
     (if alg = 1 then replacePageOptimal cfg else if alg = 2 then replacePageFIFO mok cfg
      else if alg = 3 then replacePageLRU cfg else replacePageSC mok cfg)"

text \<open>What happens once the menu is done; a null output file is dereferenced.\<close>

definition simulate ::
    "World \<Rightarrow> nat \<Rightarrow> Config \<Rightarrow> PageQueue \<Rightarrow> int \<Rightarrow> string \<Rightarrow> (string \<times> Totals) cres" where
  "simulate w bits cfg q alg file =
     cbind (readLoop bits file createVirtualAddressInfoArray 0) (\<lambda>vs.
     if \<not> writable w (outName alg) then UB
     else cbind (setPageNums (pageSizeBytes cfg) vs) (\<lambda>vs'.
       cbind (simLoop (stepOf alg (mallocOk w) cfg) cfg (zeroTotals, startSim cfg vs' q)) (\<lambda>(t, _).
         Ret (outName alg, t))))"

text \<open>The name and the text of the output file.\<close>

definition main :: "World \<Rightarrow> (string \<times> string) cres" where
  "main w =
     cbind (ask 1 3 (stdinText w)) (\<lambda>(b, i1).
     cbind (ask 1 3 i1) (\<lambda>(p, i2).
     cbind (ask 1 2 i2) (\<lambda>(m, i3).
     cbind (mkConfig b p m) (\<lambda>cfg.
     cbind (initializePageQueue (mallocOk w) (totalFrame cfg)) (\<lambda>q.
     cbind (ask 1 4 i3) (\<lambda>(alg, i4).
     cbind (ask 1 2 i4) (\<lambda>(fileOption, i5).
     cbind (openInput w (bitsOf b) fileOption i5) (\<lambda>file.
     cbind (simulate w (bitsOf b) cfg q alg file) (\<lambda>(name, t).
       Ret (name, outputText t))))))))))"

subsection \<open>The menu returns the typed choice\<close>

lemma ask_typed:
  assumes "lo \<le> int n" and "int n \<le> hi" and "int_range (int n)" and "list_all isspace ws"
  shows "ask lo hi (ws @ showNat n @ newline # rest) = Ret (int n, newline # rest)"
  using scan_show [OF assms(3) _ assms(4), of "newline # rest"] assms(1,2)
  by (simp add: ask_def askAgain.simps)

lemma mkConfig_eq:
  assumes "1 \<le> p" and "p \<le> 3"
  shows "mkConfig b p m = Ret \<lparr>totalFrame = memoryKB m div pageKB p,
    totalPage = 2 ^ bitsOf b div (pageKB p * 1024), pageSizeBytes = pageKB p * 1024\<rparr>"
  using assms by (simp add: mkConfig_def pageKB_def memoryKB_def cdiv_def)

subsection \<open>Reading the file\<close>

definition unread :: VirtualAddressInfo where
  "unread = \<lparr>virtualAddress = -1, vaPageNum = -1\<rparr>"

definition readSoFar :: "nat list \<Rightarrow> VirtualAddressInfo list" where
  "readSoFar as = map (\<lambda>a. unread\<lparr>virtualAddress := int a\<rparr>) as @
     replicate (nat NUM_ADDRESSES - length as) unread"

lemma readSoFar_Nil: "readSoFar [] = createVirtualAddressInfoArray"
  by (simp add: readSoFar_def createVirtualAddressInfoArray_def unread_def)

lemma readSoFar_length: "length as \<le> nat NUM_ADDRESSES \<Longrightarrow> length (readSoFar as) = nat NUM_ADDRESSES"
  by (simp add: readSoFar_def)

lemma readSoFar_snoc:
  assumes "length as < nat NUM_ADDRESSES"
  shows "(readSoFar as)[length as := (readSoFar as ! length as)\<lparr>virtualAddress := int a\<rparr>] = readSoFar (as @ [a])"
proof -
  obtain k where k: "nat NUM_ADDRESSES - length as = Suc k" "nat NUM_ADDRESSES - Suc (length as) = k"
    using assms by (metis Suc_diff_Suc)
  then show ?thesis by (simp add: readSoFar_def nth_append list_update_append)
qed

lemma readLoop_value:
  assumes "length as < nat NUM_ADDRESSES" and "int_range (int a)" and "list_all isspace ws"
  shows "readLoop bits (ws @ showNat a @ newline # rest) (readSoFar as) (int (length as)) =
    (if 2 ^ bits \<le> a then Exit 1
     else readLoop bits (newline # rest) (readSoFar (as @ [a])) (int (length (as @ [a]))))"
proof -
  have "readVirtualAddress (ws @ showNat a @ newline # rest) (readSoFar as) (int (length as)) =
      Ret (True, newline # rest, readSoFar (as @ [a]), int (length as) + 1)"
    using assms scan_show [OF assms(2) _ assms(3), of "newline # rest"] readSoFar_length [of as]
    by (simp add: readVirtualAddress_def readSoFar_snoc)
  moreover have "aget (readSoFar (as @ [a])) (int (length as)) = Ret (unread\<lparr>virtualAddress := int a\<rparr>)"
    using assms(1) readSoFar_length [of "as @ [a]"]
    by (simp add: nth_append) (simp add: readSoFar_def nth_append)
  moreover have "int a > 2 ^ bits - 1 \<longleftrightarrow> 2 ^ bits \<le> a"
    using of_nat_le_iff [of "2 ^ bits" a, where 'a = int]
    by (simp only: of_nat_power of_nat_numeral) linarith
  ultimately show ?thesis by (subst readLoop.simps) (simp add: add.commute)
qed

lemma readLoop_prefix:
  assumes "length done + length as \<le> nat NUM_ADDRESSES" and "list_all (\<lambda>a. a < 2 ^ bits) as"
    and "list_all (\<lambda>a. int_range (int a)) as" and "list_all isspace ws"
  shows "readLoop bits (ws @ addressLines as @ rest) (readSoFar done) (int (length done)) =
    readLoop bits ((if as = [] then ws else [newline]) @ rest) (readSoFar (done @ as))
      (int (length (done @ as)))"
  using assms
proof (induction as arbitrary: "done" ws)
  case (Cons a as)
  have "readLoop bits (ws @ addressLines (a # as) @ rest) (readSoFar done) (int (length done)) =
    readLoop bits ([newline] @ addressLines as @ rest) (readSoFar (done @ [a])) (int (length (done @ [a])))"
    using Cons.prems readLoop_value [of "done" a ws bits "addressLines as @ rest"]
    by (simp add: addressLines_def)
  then show ?case using Cons.IH [of "done @ [a]" "[newline]"] Cons.prems by simp
qed (simp add: addressLines_def)

lemma scanInt_spaces: "list_all isspace ws \<Longrightarrow> scanInt ws = ScanEOF"
  by (induction ws) (simp_all add: scanInt_def scanNum_def)

lemma readLoop_end:
  assumes "list_all isspace ws"
  shows "readLoop bits ws vs n = Ret vs"
  using scanInt_spaces [OF assms]
  by (subst readLoop.simps) (simp add: readVirtualAddress_def)

lemma readLoop_file:
  assumes "length as \<le> nat NUM_ADDRESSES" and "list_all (\<lambda>a. a < 2 ^ bits) as" and "bits \<le> 20"
  shows "readLoop bits (addressLines as) createVirtualAddressInfoArray 0 = Ret (readSoFar as)"
proof -
  have "(2::nat) ^ bits \<le> 2 ^ 20" using assms(3) by (intro power_increasing) simp_all
  then have "list_all (\<lambda>a. int_range (int a)) as"
    using assms(2) by (fastforce simp: list_all_iff int_range_def)
  then show ?thesis
    using readLoop_prefix [of "[]" as bits "[]" "[]"] readLoop_end [of "if as = [] then [] else [newline]"] assms
    by (simp add: readSoFar_Nil split: if_splits)
qed

subsection \<open>Page numbers\<close>

definition vasOf :: "int \<Rightarrow> nat list \<Rightarrow> VirtualAddressInfo list" where
  "vasOf psb as = map (\<lambda>a. \<lparr>virtualAddress = int a, vaPageNum = int a div psb\<rparr>) as"

lemma setPageNums_map:
  assumes "length vs = nat NUM_ADDRESSES" and "0 < psb"
  shows "setPageNums psb vs = Ret (map (\<lambda>e. e\<lparr>vaPageNum := virtualAddress e sdiv psb\<rparr>) vs)"
proof -
  have n: "NUM_ADDRESSES = int (length vs)" using assms(1) by (simp add: NUM_ADDRESSES_def)
  show ?thesis unfolding setPageNums_def n
    using assms(2) by (intro cfold_map) (simp add: cdiv_def)
qed

lemma setPageNums_read:
  assumes "length as = nat NUM_ADDRESSES" and "0 < psb"
  shows "setPageNums psb (readSoFar as) = Ret (vasOf psb as)"
  using assms readSoFar_length [of as]
  by (simp add: setPageNums_map) (simp add: readSoFar_def vasOf_def unread_def)

subsection \<open>The configuration and the loop\<close>

definition configOf :: "int \<Rightarrow> int \<Rightarrow> int \<Rightarrow> Config" where
  "configOf b p m = \<lparr>totalFrame = memoryKB m div pageKB p,
    totalPage = 2 ^ bitsOf b div (pageKB p * 1024), pageSizeBytes = pageKB p * 1024\<rparr>"

lemma configOf_bounds:
  "0 < pageSizeBytes (configOf b p m)" "3 \<le> totalFrame (configOf b p m)" "0 \<le> totalPage (configOf b p m)"
  "totalFrame (configOf b p m) * pageSizeBytes (configOf b p m) = memoryKB m * 1024"
  by (simp_all add: configOf_def pageKB_def memoryKB_def bitsOf_def)

lemma configOf_page:
  "a < 2 ^ bitsOf b \<Longrightarrow> int a div pageSizeBytes (configOf b p m) < totalPage (configOf b p m)"
  by (auto simp: configOf_def pageKB_def bitsOf_def split: if_splits)

lemma configOf_ready:
  assumes "length as = nat NUM_ADDRESSES" and "list_all (\<lambda>a. a < 2 ^ bitsOf b) as"
    and "initializePageQueue True (totalFrame (configOf b p m)) = Ret q"
  shows "ready (configOf b p m) (vasOf (pageSizeBytes (configOf b p m)) as) q"
proof -
  have "qrep q []" "maxSize q = totalFrame (configOf b p m)"
    using assms(3) configOf_bounds(2) [of b p m] initialize_qrep [OF _ assms(3)]
    by (auto simp: initializePageQueue_def)
  moreover have "list_all (va_ok (configOf b p m)) (vasOf (pageSizeBytes (configOf b p m)) as)"
    using assms(2) configOf_page [of _ b p m] by (simp add: list_all_iff vasOf_def va_ok_def)
  ultimately show ?thesis using assms(1) configOf_bounds [of b p m] by (simp add: ready_def vasOf_def)
qed

text \<open>The hit/fault sequence of the chosen algorithm's policy on a page reference string.\<close>

definition algorithmHits :: "int \<Rightarrow> Config \<Rightarrow> nat list \<Rightarrow> bool list" where
  "algorithmHits alg cfg tr =
     (let ns = [0..<length tr] in
      if alg = 1 then fst (hitsFrom (optPolicy cfg tr) ns [])
      else if alg = 2 then fst (hitsFrom (fifoPolicy cfg tr) ns [])
      else if alg = 3 then fst (hitsFrom (lruPolicy cfg tr) ns [])
      else fst (hitsFrom (scPolicy cfg tr) ns []))"

lemma stepOf_run:
  assumes "ready cfg vs q"
  shows "\<exists>t s. simLoop (stepOf alg mok cfg) cfg (zeroTotals, startSim cfg vs q) = Ret (t, s) \<and>
    totals_ok cfg vs (algorithmHits alg cfg (map (\<lambda>v. nat (vaPageNum v)) vs)) t"
proof -
  have len: "length vs = nat NUM_ADDRESSES" using assms by (simp add: ready_def)
  note L = ready_start(4) [OF assms]
  show ?thesis
    using opt.simLoop_sim [OF opt_start [OF assms] L] fifo.simLoop_sim [OF fifo_start [OF assms] L, of mok]
      lru.simLoop_sim [OF lru_start [OF assms] L] sc.simLoop_sim [OF sc_start [OF assms] L, of mok]
    by (simp add: stepOf_def algorithmHits_def Let_def trace_startSim len)
qed

text \<open>A correct translation stays inside physical memory.\<close>

lemma row_in_memory:
  assumes "row_ok cfg r" and "0 < pageSizeBytes cfg" and "totalFrame cfg * pageSizeBytes cfg = n"
  shows "0 \<le> rowPA r \<and> rowPA r < n"
proof -
  have "rowPA r < rowFrame r * pageSizeBytes cfg + pageSizeBytes cfg"
    using assms(1,2) by (simp add: row_ok_def)
  also have "\<dots> = (rowFrame r + 1) * pageSizeBytes cfg" by (simp add: algebra_simps)
  also have "\<dots> \<le> totalFrame cfg * pageSizeBytes cfg"
    using assms(1,2) by (intro mult_right_mono) (auto simp: row_ok_def)
  finally show ?thesis using assms by (auto simp: row_ok_def)
qed

lemma simulate_correct:
  assumes "length as = nat NUM_ADDRESSES" and "list_all (\<lambda>a. a < 2 ^ bitsOf b) as"
    and "initializePageQueue True (totalFrame (configOf b p m)) = Ret q" and "writable w (outName alg)"
  shows "\<exists>t. simulate w (bitsOf b) (configOf b p m) q alg (addressLines as) = Ret (outName alg, t) \<and>
    totals_ok (configOf b p m) (vasOf (pageKB p * 1024) as)
      (algorithmHits alg (configOf b p m) (map (\<lambda>a. a div nat (pageKB p * 1024)) as)) t \<and>
    list_all (\<lambda>r. 0 \<le> rowPA r \<and> rowPA r < memoryKB m * 1024) (rows t)"
proof -
  let ?cfg = "configOf b p m" and ?psb = "pageSizeBytes (configOf b p m)"
  have psb: "?psb = pageKB p * 1024" by (simp add: configOf_def)
  have tr: "map (\<lambda>v. nat (vaPageNum v)) (vasOf ?psb as) = map (\<lambda>a. a div nat ?psb) as"
    using configOf_bounds(1) [of b p m] by (simp add: vasOf_def nat_div_distrib)
  obtain t s where run: "simLoop (stepOf alg (mallocOk w) ?cfg) ?cfg (zeroTotals, startSim ?cfg (vasOf ?psb as) q) = Ret (t, s)"
    and tot: "totals_ok ?cfg (vasOf ?psb as) (algorithmHits alg ?cfg (map (\<lambda>a. a div nat ?psb) as)) t"
    using stepOf_run [OF configOf_ready [OF assms(1-3)]] unfolding tr by blast
  have "bitsOf b \<le> 20" by (simp add: bitsOf_def)
  then have "readLoop (bitsOf b) (addressLines as) createVirtualAddressInfoArray 0 = Ret (readSoFar as)"
    using assms(1,2) by (intro readLoop_file) simp_all
  then have "simulate w (bitsOf b) ?cfg q alg (addressLines as) = Ret (outName alg, t)"
    using assms(4) run by (simp add: simulate_def setPageNums_read [OF assms(1) configOf_bounds(1)])
  moreover have "list_all (\<lambda>r. 0 \<le> rowPA r \<and> rowPA r < memoryKB m * 1024) (rows t)"
    using tot row_in_memory [OF _ configOf_bounds(1,4)] by (auto simp: totals_ok_def list_all_iff)
  ultimately show ?thesis using tot unfolding psb by blast
qed

subsection \<open>The program as a whole\<close>

text \<open>What is typed at the menu, one number per line.\<close>

definition typed :: "nat list \<Rightarrow> string" where
  "typed ns = concat (map (\<lambda>n. showNat n @ [newline]) ns)"

definition choices_ok :: "nat \<Rightarrow> nat \<Rightarrow> nat \<Rightarrow> nat \<Rightarrow> bool" where
  "choices_ok b p m alg \<longleftrightarrow> b \<in> {1..3} \<and> p \<in> {1..3} \<and> m \<in> {1..2} \<and> alg \<in> {1..4}"

lemma ask_first:
  "lo \<le> int n \<Longrightarrow> int n \<le> hi \<Longrightarrow> int_range (int n) \<Longrightarrow>
   ask lo hi (showNat n @ newline # rest) = Ret (int n, newline # rest)"
  using ask_typed [of lo n hi "[]" rest] by simp

lemma ask_next:
  "lo \<le> int n \<Longrightarrow> int n \<le> hi \<Longrightarrow> int_range (int n) \<Longrightarrow>
   ask lo hi (newline # showNat n @ newline # rest) = Ret (int n, newline # rest)"
  using ask_typed [of lo n hi "[newline]" rest] by simp

lemma main_menu:
  assumes "choices_ok b p m alg" and "fo \<in> {1..2}" and "mallocOk w"
    and "stdinText w = typed [b, p, m, alg, fo] @ rest"
  shows "\<exists>q. initializePageQueue True (totalFrame (configOf (int b) (int p) (int m))) = Ret q \<and>
    main w = cbind (openInput w (bitsOf (int b)) (int fo) (newline # rest)) (\<lambda>file.
      cbind (simulate w (bitsOf (int b)) (configOf (int b) (int p) (int m)) q (int alg) file) (\<lambda>(name, t).
        Ret (name, outputText t)))"
proof -
  have r: "int_range (int n)" if "n \<le> 4" for n using that by (simp add: int_range_def)
  have cfg: "mkConfig (int b) (int p) (int m) = Ret (configOf (int b) (int p) (int m))"
    using assms(1) by (simp add: mkConfig_eq configOf_def choices_ok_def)
  from assms(1,2) have c: "1 \<le> int b" "int b \<le> 3" "1 \<le> int p" "int p \<le> 3" "1 \<le> int m" "int m \<le> 2"
    "1 \<le> int alg" "int alg \<le> 4" "1 \<le> int fo" "int fo \<le> 2"
    "int_range (int b)" "int_range (int p)" "int_range (int m)" "int_range (int alg)" "int_range (int fo)"
    by (auto simp: choices_ok_def int_range_def)
  show ?thesis using assms(3,4) c
    by (simp add: main_def typed_def ask_first ask_next cfg) (simp add: initializePageQueue_def)
qed

text \<open>A file name that \<open>%s\<close> reads whole.\<close>

definition fileNameOk :: "string \<Rightarrow> bool" where
  "fileNameOk nm \<longleftrightarrow> nm \<noteq> [] \<and> length nm < 256 \<and> list_all (\<lambda>c. \<not> isspace c) nm"

lemma scanWord_name:
  assumes "fileNameOk nm"
  shows "scanWord (newline # nm @ [newline]) = Some (nm, [newline])"
proof -
  from assms obtain c cs where nm: "nm = c # cs" "\<not> isspace c" by (cases nm) (auto simp: fileNameOk_def)
  then have "dropWhile isspace (newline # nm @ [newline]) = nm @ [newline]" by simp
  moreover have "takeWhile (\<lambda>c. \<not> isspace c) (nm @ [newline]) = nm \<and>
      dropWhile (\<lambda>c. \<not> isspace c) (nm @ [newline]) = [newline]"
    using assms by (intro takeWhile_digits) (simp_all add: fileNameOk_def)
  ultimately show ?thesis using nm by (simp add: scanWord_def)
qed

text \<open>
  C1: the simulator on an existing file. For every combination of menu choices and every file
  of 5000 addresses of the chosen length, the program returns, writes the output file of the
  chosen algorithm, the H/F column and the totals are those of the chosen policy on the page
  reference string, every row's translation is right, and every physical address lies inside
  the chosen physical memory.
\<close>

theorem main_correct:
  assumes "choices_ok b p m alg" and "mallocOk w" and "writable w (outName (int alg))"
    and "stdinText w = typed [b, p, m, alg, 2] @ nm @ [newline]" and "fileNameOk nm"
    and "fileText w nm = Some (addressLines as)" and "length as = nat NUM_ADDRESSES"
    and "list_all (\<lambda>a. a < 2 ^ bitsOf (int b)) as"
  shows "\<exists>t. main w = Ret (outName (int alg), outputText t) \<and>
    totals_ok (configOf (int b) (int p) (int m)) (vasOf (pageKB (int p) * 1024) as)
      (algorithmHits (int alg) (configOf (int b) (int p) (int m))
        (map (\<lambda>a. a div nat (pageKB (int p) * 1024)) as)) t \<and>
    list_all (\<lambda>r. 0 \<le> rowPA r \<and> rowPA r < memoryKB (int m) * 1024) (rows t)"
proof -
  obtain q where q: "initializePageQueue True (totalFrame (configOf (int b) (int p) (int m))) = Ret q"
    and run: "main w = cbind (openInput w (bitsOf (int b)) (int 2) (newline # nm @ [newline])) (\<lambda>file.
      cbind (simulate w (bitsOf (int b)) (configOf (int b) (int p) (int m)) q (int alg) file) (\<lambda>(name, t).
        Ret (name, outputText t)))"
    using main_menu [OF assms(1) _ assms(2,4)] by auto
  have "openInput w (bitsOf (int b)) (int 2) (newline # nm @ [newline]) = Ret (addressLines as)"
    using assms(5,6) by (simp add: openInput_def scanWord_name) (simp add: fileNameOk_def)
  with run simulate_correct [OF assms(7,8) q assms(3)] show ?thesis by fastforce
qed

definition demoWorld :: World where
  "demoWorld = \<lparr>stdinText = typed [1, 3, 1, 2, 2] @ ''a.in'' @ [newline],
     fileText = (\<lambda>nm. if nm = ''a.in'' then Some (addressLines (replicate 5000 70000)) else
       if nm = ''b.in'' then Some (addressLines ([7] @ [262144]) @ []) else None),
     writable = (\<lambda>_. True), rands = (\<lambda>i. 12345 * i), reopens = True, mallocOk = True\<rparr>"

theorem main_correct_witness:
  "\<exists>t. main demoWorld = Ret (outName (int 2), outputText t) \<and>
    totals_ok (configOf (int 1) (int 3) (int 1)) (vasOf (pageKB (int 3) * 1024) (replicate 5000 70000))
      (algorithmHits (int 2) (configOf (int 1) (int 3) (int 1))
        (map (\<lambda>a. a div nat (pageKB (int 3) * 1024)) (replicate 5000 70000))) t \<and>
    list_all (\<lambda>r. 0 \<le> rowPA r \<and> rowPA r < memoryKB (int 1) * 1024) (rows t)"
  by (rule main_correct [where nm = "''a.in''"])
    (simp_all add: choices_ok_def demoWorld_def fileNameOk_def isspace_def NUM_ADDRESSES_def
      bitsOf_def list_all_iff)

text \<open>
  C28: the simulator on a generated file. Whatever \<open>rand\<close> returns, the generated addresses
  are accepted when they are read back (decimal output followed by input is the identity and
  the remainder is below the address space), and the simulation returns with the results of
  the chosen policy.
\<close>

theorem main_generated_correct:
  assumes "choices_ok b p m alg" and "mallocOk w" and "writable w (outName (int alg))"
    and "stdinText w = typed [b, p, m, alg, 1]" and "writable w ''input.in''" and "reopens w"
  shows "\<exists>as t. as = map (\<lambda>i. rands w i mod 2 ^ bitsOf (int b)) [0..<nat NUM_ADDRESSES] \<and>
    main w = Ret (outName (int alg), outputText t) \<and>
    totals_ok (configOf (int b) (int p) (int m)) (vasOf (pageKB (int p) * 1024) as)
      (algorithmHits (int alg) (configOf (int b) (int p) (int m))
        (map (\<lambda>a. a div nat (pageKB (int p) * 1024)) as)) t \<and>
    list_all (\<lambda>r. 0 \<le> rowPA r \<and> rowPA r < memoryKB (int m) * 1024) (rows t)"
proof -
  let ?as = "map (\<lambda>i. rands w i mod 2 ^ bitsOf (int b)) [0..<nat NUM_ADDRESSES]"
  obtain q where q: "initializePageQueue True (totalFrame (configOf (int b) (int p) (int m))) = Ret q"
    and run: "main w = cbind (openInput w (bitsOf (int b)) (int 1) (newline # [])) (\<lambda>file.
      cbind (simulate w (bitsOf (int b)) (configOf (int b) (int p) (int m)) q (int alg) file) (\<lambda>(name, t).
        Ret (name, outputText t)))"
    using main_menu [OF assms(1) _ assms(2), of 1 "[]"] assms(4) by auto
  have "length ?as = nat NUM_ADDRESSES" "list_all (\<lambda>a. a < 2 ^ bitsOf (int b)) ?as"
    by (simp_all add: list_all_iff)
  from simulate_correct [OF this q assms(3)] run assms(5,6) show ?thesis
    by (fastforce simp: openInput_def generateInput_def)
qed

theorem main_generated_correct_witness:
  "\<exists>as t. as = map (\<lambda>i. rands (demoWorld\<lparr>stdinText := typed [2, 1, 2, 4, 1]\<rparr>) i mod 2 ^ bitsOf (int 2))
      [0..<nat NUM_ADDRESSES] \<and>
    main (demoWorld\<lparr>stdinText := typed [2, 1, 2, 4, 1]\<rparr>) = Ret (outName (int 4), outputText t) \<and>
    totals_ok (configOf (int 2) (int 1) (int 2)) (vasOf (pageKB (int 1) * 1024) as)
      (algorithmHits (int 4) (configOf (int 2) (int 1) (int 2))
        (map (\<lambda>a. a div nat (pageKB (int 1) * 1024)) as)) t \<and>
    list_all (\<lambda>r. 0 \<le> rowPA r \<and> rowPA r < memoryKB (int 2) * 1024) (rows t)"
  by (rule main_generated_correct) (simp_all add: choices_ok_def demoWorld_def)





end
