(* ===== verification/Revert.thy ===== *)
theory Revert
  imports C_IO "HOL-Library.Word"
begin

section \<open>The revert system calls (src/2/sys_string_revert.c, sys_plus_revert.c, sys_minus_revert.c)\<close>

text \<open>
  Three system calls that read a line from user memory and write an answer back. The
  kernel services they use (\<open>copy_from_user\<close>, \<open>copy_to_user\<close>, the kernel's \<open>sscanf\<close> and
  \<open>snprintf\<close>) are not in the repository: they are the fields of the record \<open>KLib\<close>, a
  parameter, and \<open>klib_ok\<close> states what their documentation promises and the system calls
  rely on. \<open>long\<close> arithmetic wraps at 64 bits, as the kernel is compiled.
\<close>

subsection \<open>C strings\<close>

definition NUL :: char where
  "NUL = CHR 0x00"

text \<open>The string in a buffer; reading past a buffer without terminator is undefined.\<close>

definition cstring :: "char list \<Rightarrow> string cres" where
  "cstring buf = (if NUL \<in> set buf then Ret (takeWhile (\<lambda>c. c \<noteq> NUL) buf) else UB)"

definition strlen :: "char list \<Rightarrow> int cres" where
  "strlen buf = cbind (cstring buf) (\<lambda>s. Ret (int (length s)))"

definition no_nul :: "string \<Rightarrow> bool" where
  "no_nul s \<longleftrightarrow> NUL \<notin> set s"

lemma cstring_terminated: "no_nul s \<Longrightarrow> cstring (s @ NUL # rest) = Ret s"
  unfolding no_nul_def by (simp add: cstring_def takeWhile_append2) (induction s, auto)

lemma strlen_terminated: "no_nul s \<Longrightarrow> strlen (s @ NUL # rest) = Ret (int (length s))"
  by (simp add: strlen_def cstring_terminated)

subsection \<open>Kernel services\<close>

record ('ptr, 'mem) KLib =
  copy_from_user :: "'mem \<Rightarrow> 'ptr \<Rightarrow> nat \<Rightarrow> char list option"
  copy_to_user :: "'mem \<Rightarrow> 'ptr \<Rightarrow> char list \<Rightarrow> bool \<times> 'mem"
  sscanf_ld_c_ld :: "string \<Rightarrow> (int \<times> char \<times> int) option"
  snprintf_ld :: "nat \<Rightarrow> int \<Rightarrow> char list"

text \<open>
  \<open>copy_from_user\<close> gives the bytes asked for, or \<open>None\<close> when some could not be read;
  \<open>copy_to_user\<close> gives whether all bytes were written and the memory after it; the
  scan gives the three values when all three conversions succeed.
\<close>

definition wrap64 :: "int \<Rightarrow> int" where
  "wrap64 n = sint (word_of_int n :: 64 word)"

subsection \<open>The system calls\<close>

definition reverseInto :: "char list \<Rightarrow> int \<Rightarrow> char list cres" where
  "reverseInto buf len =
     cfold (\<lambda>j reversed. cbind (aget buf (len - 1 - j)) (\<lambda>c. aset reversed j c))
       (range0 len) (replicate 100 NUL)"

definition sys_string_revert ::
    "('ptr, 'mem) KLib \<Rightarrow> 'ptr \<Rightarrow> 'ptr \<Rightarrow> 'mem \<Rightarrow> (int \<times> 'mem) cres" where
  "sys_string_revert K user_input user_output mem =
     (case copy_from_user K mem user_input 100 of
        None \<Rightarrow> Ret (- EFAULT, mem)
      | Some buf \<Rightarrow>
          cbind (aget buf 0) (\<lambda>c0.
          if c0 = NUL then Ret (- EINTR, mem)
          else
            cbind (strlen buf) (\<lambda>len.
            cbind (reverseInto buf len) (\<lambda>reversed.
            cbind (strlen reversed) (\<lambda>n.
            case copy_to_user K mem user_output (take (nat (n + 1)) reversed) of
              (ok, mem') \<Rightarrow> Ret (if ok then 0 else - EFAULT, mem'))))))"

text \<open>The two arithmetic calls have the same body, up to the operator they accept and use.\<close>

definition arith_revert ::
    "char \<Rightarrow> (int \<Rightarrow> int \<Rightarrow> int) \<Rightarrow> ('ptr, 'mem) KLib \<Rightarrow> 'ptr \<Rightarrow> 'ptr \<Rightarrow> 'mem \<Rightarrow> (int \<times> 'mem) cres" where
  "arith_revert op f K user_input user_output mem =
     (case copy_from_user K mem user_input 100 of
        None \<Rightarrow> Ret (- EFAULT, mem)
      | Some buf \<Rightarrow>
          cbind (aget buf 0) (\<lambda>c0.
          if c0 = NUL then Ret (- EINTR, mem)
          else
            cbind (cstring buf) (\<lambda>s.
            case sscanf_ld_c_ld K s of
              None \<Rightarrow> Ret (- EINVAL, mem)
            | Some (number1, operation, number2) \<Rightarrow>
                if operation \<noteq> op then Ret (- EINVAL, mem)
                else
                  let out = snprintf_ld K 100 (wrap64 (f number1 number2)) in
                  cbind (strlen out) (\<lambda>n.
                  case copy_to_user K mem user_output (take (nat (n + 1)) out) of
                    (ok, mem') \<Rightarrow> Ret (if ok then 0 else - EFAULT, mem')))))"

definition sys_plus_revert ::
    "('ptr, 'mem) KLib \<Rightarrow> 'ptr \<Rightarrow> 'ptr \<Rightarrow> 'mem \<Rightarrow> (int \<times> 'mem) cres" where
  "sys_plus_revert = arith_revert CHR ''+'' (\<lambda>a b. a - b)"

definition sys_minus_revert ::
    "('ptr, 'mem) KLib \<Rightarrow> 'ptr \<Rightarrow> 'ptr \<Rightarrow> 'mem \<Rightarrow> (int \<times> 'mem) cres" where
  "sys_minus_revert = arith_revert CHR ''-'' (\<lambda>a b. a + b)"

subsection \<open>What the documentation of the services promises\<close>

definition blanks :: "string \<Rightarrow> bool" where
  "blanks s \<longleftrightarrow> list_all (\<lambda>c. c = CHR '' '') s"

text \<open>
  A copy from user memory has the length asked for; scanning a decimal, an operator and a
  decimal, with any blanks between them, yields the three; a \<open>long\<close> is printed in decimal
  and terminated when the buffer has room.
\<close>

definition klib_ok :: "('ptr, 'mem) KLib \<Rightarrow> bool" where
  "klib_ok K \<longleftrightarrow>
     (\<forall>mem p n bs. copy_from_user K mem p n = Some bs \<longrightarrow> length bs = n) \<and>
     (\<forall>a op b s1 s2. long_range (int a) \<and> long_range (int b) \<and> blanks s1 \<and> blanks s2 \<and>
        op \<in> {CHR ''+'', CHR ''-''} \<longrightarrow>
        sscanf_ld_c_ld K (showNat a @ s1 @ op # s2 @ showNat b) = Some (int a, op, int b)) \<and>
     (\<forall>n v. length (showInt v) < n \<longrightarrow> (\<exists>rest. snprintf_ld K n v = showInt v @ NUL # rest))"

lemma klib_okD:
  assumes "klib_ok K"
  shows "copy_from_user K mem p n = Some bs \<Longrightarrow> length bs = n"
    and "long_range (int a) \<Longrightarrow> long_range (int b) \<Longrightarrow> blanks s1 \<Longrightarrow> blanks s2 \<Longrightarrow>
      op \<in> {CHR ''+'', CHR ''-''} \<Longrightarrow>
      sscanf_ld_c_ld K (showNat a @ s1 @ op # s2 @ showNat b) = Some (int a, op, int b)"
    and "length (showInt v) < m \<Longrightarrow> \<exists>rest. snprintf_ld K m v = showInt v @ NUL # rest"
  using assms unfolding klib_ok_def by blast+

subsection \<open>Helper facts\<close>

lemma wrap64_id: "long_range n \<Longrightarrow> wrap64 n = n"
  by (simp add: wrap64_def long_range_def sint_sbintrunc' signed_take_bit_int_eq_self)

lemma length_showNat: "n < 10 ^ k \<Longrightarrow> 0 < k \<Longrightarrow> length (showNat n) \<le> k"
proof (induction n arbitrary: k rule: showNat.induct)
  case (1 n)
  show ?case
  proof (cases "n < 10")
    case True
    with 1 show ?thesis by (subst showNat.simps) simp
  next
    case False
    with "1.prems" obtain j where k: "k = Suc j" "0 < j" by (cases k) (auto, case_tac nat, auto)
    with "1.prems" have "n div 10 < 10 ^ j" by (simp add: less_mult_imp_div_less mult.commute)
    with "1.IH" [OF False, of j] k have "length (showNat (n div 10)) \<le> j" by simp
    with False k show ?thesis by (subst showNat.simps) simp
  qed
qed

lemma length_showInt: "long_range v \<Longrightarrow> length (showInt v) \<le> 20"
proof -
  assume "long_range v"
  then have "\<bar>v\<bar> < 10 ^ 19" by (auto simp: long_range_def)
  then have "nat \<bar>v\<bar> < 10 ^ 19" by (simp add: nat_less_iff)
  then have "length (showNat (nat \<bar>v\<bar>)) \<le> 19" by (intro length_showNat) simp_all
  then show ?thesis by (auto simp: showInt_def)
qed

lemma showNat_no_nul: "no_nul (showNat n)"
  using showNat_digits [of n] by (auto simp: no_nul_def NUL_def list_all_iff isdigit_def)

lemma showInt_no_nul: "no_nul (showInt v)"
  using showNat_no_nul by (auto simp: showInt_def no_nul_def NUL_def)

lemma blanks_no_nul: "blanks s \<Longrightarrow> no_nul s"
  unfolding blanks_def no_nul_def NUL_def by (induction s) auto

lemma reverseInto_correct:
  assumes "length s < 100"
  shows "reverseInto (s @ rest) (int (length s)) = Ret (rev s @ replicate (100 - length s) NUL)"
proof -
  have "cfold (\<lambda>j r. cbind (aget (s @ rest) (int (length s) - 1 - j)) (\<lambda>c. aset r j c))
      (map int [0..<k]) (replicate 100 NUL) = Ret (take k (rev s) @ replicate (100 - k) NUL)"
    if "k \<le> length s" for k
    using that
  proof (induction k)
    case (Suc k)
    have i: "int (length s) - 1 - int k = int (length s - Suc k)" using Suc.prems by simp
    have "length s - Suc k < length s" using Suc.prems by simp
    then have "aget (s @ rest) (int (length s - Suc k)) = Ret (rev s ! k)"
      using Suc.prems aget_nat [of "length s - Suc k" "s @ rest"]
      by (simp add: nth_append rev_nth del: aget_nat of_nat_diff)
    then have c: "aget (s @ rest) (int (length s) - 1 - int k) = Ret (rev s ! k)" by (simp only: i)
    have "100 - k = Suc (100 - Suc k)" using Suc.prems assms by simp
    then have "aset (take k (rev s) @ replicate (100 - k) NUL) (int k) (rev s ! k) =
        Ret (take (Suc k) (rev s) @ replicate (100 - Suc k) NUL)"
      using Suc.prems assms by (simp add: list_update_append take_Suc_conv_app_nth)
    with Suc c show ?case by (simp add: cfold_append)
  qed simp
  from this [of "length s"] show ?thesis by (simp add: reverseInto_def range0_of_nat)
qed

subsection \<open>What the system calls do\<close>

text \<open>
  The result of a call that has its answer: the answer and its terminator are copied out,
  and the return value says whether that worked.
\<close>

definition answers :: "('ptr, 'mem) KLib \<Rightarrow> 'mem \<Rightarrow> 'ptr \<Rightarrow> string \<Rightarrow> (int \<times> 'mem) cres" where
  "answers K mem out s = (case copy_to_user K mem out (s @ [NUL]) of
     (ok, mem') \<Rightarrow> Ret (if ok then 0 else - EFAULT, mem'))"

lemma aget_head: "0 < length xs \<Longrightarrow> aget xs 0 = Ret (xs ! 0)"
  by (simp add: aget_def)

lemma string_revert_correct:
  assumes "copy_from_user K mem inp 100 = Some (s @ NUL # rest)" and "no_nul s" and "s \<noteq> []"
    and "length s < 100"
  shows "sys_string_revert K inp out mem = answers K mem out (rev s)"
proof -
  have rs: "no_nul (rev s)" using assms(2) by (simp add: no_nul_def)
  have h: "(s @ NUL # rest) ! 0 \<noteq> NUL" using assms(2,3) by (cases s) (auto simp: no_nul_def)
  obtain k where k: "100 - length s = Suc k" using assms(4) by (metis Suc_diff_Suc)
  have len: "strlen (rev s @ replicate (100 - length s) NUL) = Ret (int (length s))"
    using strlen_terminated [OF rs] by (simp add: k)
  have "take (nat (int (length s) + 1)) (rev s @ replicate (100 - length s) NUL) = rev s @ [NUL]"
    by (simp add: k nat_add_distrib)
  with assms(1,4) h len show ?thesis
    by (simp add: sys_string_revert_def aget_head strlen_terminated [OF assms(2)]
        reverseInto_correct answers_def)
qed

lemma arith_revert_correct:
  assumes "klib_ok K" and "copy_from_user K mem inp 100 = Some (showNat a @ s1 @ op # s2 @ showNat b @ NUL # rest)"
    and "blanks s1" and "blanks s2" and "op \<in> {CHR ''+'', CHR ''-''}"
    and "long_range (int a)" and "long_range (int b)"
  shows "arith_revert op' f K inp out mem =
    (if op = op' then answers K mem out (showInt (wrap64 (f (int a) (int b)))) else Ret (- EINVAL, mem))"
proof -
  let ?s = "showNat a @ s1 @ op # s2 @ showNat b" and ?v = "wrap64 (f (int a) (int b))"
  have nn: "no_nul ?s" using showNat_no_nul blanks_no_nul [OF assms(3)] blanks_no_nul [OF assms(4)] assms(5)
    by (auto simp: no_nul_def NUL_def)
  have buf: "copy_from_user K mem inp 100 = Some (?s @ NUL # rest)" using assms(2) by simp
  have s: "cstring (?s @ NUL # rest) = Ret ?s" by (rule cstring_terminated [OF nn])
  have "?s \<noteq> []" by simp
  then have h: "(?s @ NUL # rest) ! 0 \<noteq> NUL" using nn by (cases ?s) (auto simp: no_nul_def)
  have v: "long_range ?v"
    using sint_ge [of "word_of_int (f (int a) (int b)) :: 64 word"] sint_lt [of "word_of_int (f (int a) (int b)) :: 64 word"]
    unfolding wrap64_def long_range_def by simp
  then obtain r where r: "snprintf_ld K 100 ?v = showInt ?v @ NUL # r"
    using klib_okD(3) [OF assms(1)] length_showInt by fastforce
  have "sscanf_ld_c_ld K ?s = Some (int a, op, int b)"
    using klib_okD(2) [OF assms(1)] assms(3-7) by blast
  then show ?thesis
    using buf h s r strlen_terminated [OF showInt_no_nul, of ?v r]
    by (simp add: arith_revert_def aget_head answers_def nat_add_distrib del: append_assoc)
qed

subsection \<open>An implementation of the services\<close>

text \<open>
  The two buffers of a calling program as its memory, and services over them that satisfy
  \<open>klib_ok\<close>: the hypotheses on the services can hold.
\<close>

datatype ubuf = InputBuf | OutputBuf

record UMem =
  inputBuf :: "char list"
  outputBuf :: "char list"

definition simpleScan :: "string \<Rightarrow> (int \<times> char \<times> int) option" where
  "simpleScan s =
     (let d1 = takeWhile isdigit s in
      case dropWhile (\<lambda>c. c = CHR '' '') (dropWhile isdigit s) of
        [] \<Rightarrow> None
      | op # r \<Rightarrow>
          let d2 = takeWhile isdigit (dropWhile (\<lambda>c. c = CHR '' '') r) in
          if d1 = [] \<or> d2 = [] then None else Some (digitsVal d1, op, digitsVal d2))"

definition simpleLib :: "(ubuf, UMem) KLib" where
  "simpleLib = \<lparr>
     copy_from_user = (\<lambda>mem p n. let b = (case p of InputBuf \<Rightarrow> inputBuf mem | OutputBuf \<Rightarrow> outputBuf mem) in
       if n \<le> length b then Some (take n b) else None),
     copy_to_user = (\<lambda>mem p bs. case p of
         InputBuf \<Rightarrow> (True, mem\<lparr>inputBuf := bs @ drop (length bs) (inputBuf mem)\<rparr>)
       | OutputBuf \<Rightarrow> (True, mem\<lparr>outputBuf := bs @ drop (length bs) (outputBuf mem)\<rparr>)),
     sscanf_ld_c_ld = simpleScan,
     snprintf_ld = (\<lambda>n v. take (n - 1) (showInt v) @ [NUL])\<rparr>"

lemma simpleScan_spec:
  assumes "blanks s1" and "blanks s2" and "op \<in> {CHR ''+'', CHR ''-''}"
  shows "simpleScan (showNat a @ s1 @ op # s2 @ showNat b) = Some (int a, op, int b)"
proof -
  let ?r = "s1 @ op # s2 @ showNat b"
  have op: "\<not> isdigit op" "op \<noteq> CHR '' ''" using assms(3) by (auto simp: isdigit_def)
  have "\<not> isdigit (hd ?r)"
    using op assms(1) by (cases s1) (auto simp: blanks_def isdigit_def)
  then have 1: "takeWhile isdigit (showNat a @ ?r) = showNat a" "dropWhile isdigit (showNat a @ ?r) = ?r"
    using takeWhile_digits [of isdigit "showNat a" ?r] showNat_digits [of a] by blast+
  have 2: "dropWhile (\<lambda>c. c = CHR '' '') ?r = op # s2 @ showNat b"
    using takeWhile_digits [of "\<lambda>c. c = CHR '' ''" s1 "op # s2 @ showNat b"] op assms(1)
    by (simp add: blanks_def)
  obtain c cs where b: "showNat b = c # cs" "isdigit c" using showNat_digits [of b] by (cases "showNat b") auto
  then have "c \<noteq> CHR '' ''" by (auto simp: isdigit_def)
  then have 3: "dropWhile (\<lambda>c. c = CHR '' '') (s2 @ showNat b) = showNat b"
    using takeWhile_digits [of "\<lambda>c. c = CHR '' ''" s2 "showNat b"] b assms(2) by (simp add: blanks_def)
  have 4: "takeWhile isdigit (showNat b) = showNat b"
    using showNat_digits [of b] takeWhile_digits [of isdigit "showNat b" "[]"] by simp
  show ?thesis unfolding simpleScan_def 1 2 Let_def list.case 3 4
    using showNat_digits by (simp add: digitsVal_showNat)
qed

lemma simpleLib_ok: "klib_ok simpleLib"
  unfolding klib_ok_def simpleLib_def
  by (auto simp: Let_def simpleScan_spec split: if_splits)



end
