(* ===== verification/Assignment2.thy ===== *)
theory Assignment2
  imports Revert
begin

section \<open>The program that uses the revert system calls (src/2/assignment2.c)\<close>

text \<open>
  The user program: it reads lines, decides from the characters of a line which system call
  to make, and prints the answer or a complaint. Its two buffers are the memory \<open>UMem\<close>
  that the system calls copy from and to; the kernel services stay a parameter, and
  \<open>umem_ok\<close> says that copies between kernel and the program's own buffers succeed.
\<close>

subsection \<open>Characters of a line\<close>

definition isChar :: "char list \<Rightarrow> int cres" where
  "isChar str =
     cbind (strlen str) (\<lambda>len.
     cbind (cfor (\<lambda>i u. cbind (aget str i) (\<lambda>c.
         Ret (if \<not> isdigit c
              then (if c = CHR '' '' \<or> c = CHR ''+'' \<or> c = CHR ''-'' then Next u else Stop 1)
              else Next u))) (range0 len) ())
       (\<lambda>r. case r of Stop v \<Rightarrow> Ret v | Next _ \<Rightarrow> Ret 0))"

definition isSpace :: "char list \<Rightarrow> int cres" where
  "isSpace str =
     cbind (strlen str) (\<lambda>len.
     cbind (cfor (\<lambda>i u. cbind (aget str i) (\<lambda>c. Ret (if c = CHR '' '' then Stop 1 else Next u)))
         (range0 len) ())
       (\<lambda>r. case r of Stop v \<Rightarrow> Ret v | Next _ \<Rightarrow> Ret 0))"

definition strchr :: "char list \<Rightarrow> char \<Rightarrow> bool cres" where
  "strchr str c = cbind (cstring str) (\<lambda>s. Ret (c \<in> set s))"

subsection \<open>Reading a line\<close>

definition fgets :: "nat \<Rightarrow> char list \<Rightarrow> string \<Rightarrow> (char list \<times> string) option" where
  "fgets n buf inp =
     (if inp = [] then None
      else
        let line = takeWhile (\<lambda>c. c \<noteq> newline) inp;
            got = take (n - 1) (if newline \<in> set inp then line @ [newline] else line)
        in Some (got @ NUL # drop (Suc (length got)) buf, drop (length got) inp))"

definition chomp :: "char list \<Rightarrow> char list cres" where
  "chomp buf =
     cbind (cstring buf) (\<lambda>s. aset buf (int (length (takeWhile (\<lambda>c. c \<noteq> newline) s))) NUL)"

subsection \<open>System calls by number (src/2/syscall_64.tbl)\<close>

definition SYSCALL_STRING_REVERT :: int where "SYSCALL_STRING_REVERT = 450"
definition SYSCALL_PLUS :: int where "SYSCALL_PLUS = 451"
definition SYSCALL_MINUS :: int where "SYSCALL_MINUS = 452"

text \<open>The library wrapper turns an error code into \<open>-1\<close>; other numbers are not used here.\<close>

definition syscall :: "(ubuf, UMem) KLib \<Rightarrow> int \<Rightarrow> UMem \<Rightarrow> (int \<times> UMem) cres" where
  "syscall K nr mem =
     cbind (if nr = 450 then sys_string_revert K InputBuf OutputBuf mem
            else if nr = 451 then sys_plus_revert K InputBuf OutputBuf mem
            else if nr = 452 then sys_minus_revert K InputBuf OutputBuf mem
            else UB)
       (\<lambda>(r, mem'). Ret (if r < 0 then -1 else r, mem'))"

subsection \<open>The main loop\<close>

datatype reply = Output string | WrongInput

definition guarded :: "(ubuf, UMem) KLib \<Rightarrow> bool \<Rightarrow> int \<Rightarrow> UMem \<Rightarrow> (int \<times> UMem) cres" where
  "guarded K allowed nr mem = (if allowed then syscall K nr mem else Ret (-1, mem))"

definition a2turn :: "(ubuf, UMem) KLib \<Rightarrow> UMem \<Rightarrow> (reply \<times> UMem) cres" where
  "a2turn K mem =
     cbind (strchr (inputBuf mem) CHR ''+'') (\<lambda>plus.
     cbind (strchr (inputBuf mem) CHR ''-'') (\<lambda>minus.
     cbind (isChar (inputBuf mem)) (\<lambda>ch.
     cbind (isSpace (inputBuf mem)) (\<lambda>sp.
     cbind (if plus then guarded K (ch = 0) SYSCALL_PLUS mem
            else if minus then guarded K (ch = 0) SYSCALL_MINUS mem
            else guarded K (ch = 0 \<and> sp = 0) SYSCALL_STRING_REVERT mem) (\<lambda>(ret, mem').
     if ret = 0 then cbind (cstring (outputBuf mem')) (\<lambda>s. Ret (Output s, mem'))
     else Ret (WrongInput, mem'))))))"

lemma fgets_shorter: "fgets 100 buf inp = Some (buf', inp') \<Longrightarrow> length inp' < length inp"
  by (cases inp) (auto simp: fgets_def Let_def split: if_splits)

function a2loop :: "(ubuf, UMem) KLib \<Rightarrow> UMem \<Rightarrow> string \<Rightarrow> reply list cres" where
  "a2loop K mem inp =
     (case fgets 100 (inputBuf mem) inp of
        None \<Rightarrow> Ret []
      | Some (buf, inp') \<Rightarrow>
          cbind (chomp buf) (\<lambda>buf'.
          cbind (strlen buf') (\<lambda>len.
          if len = 0 then Ret []
          else cbind (a2turn K (mem\<lparr>inputBuf := buf'\<rparr>)) (\<lambda>(r, mem').
            cbind (a2loop K mem' inp') (\<lambda>rs. Ret (r # rs))))))"
  by pat_completeness auto
termination
  by (relation "measure (\<lambda>(_, _, inp). length inp)") (auto simp: fgets_shorter)

declare a2loop.simps [simp del]

subsection \<open>Scanning loops\<close>

lemma cfor_any:
  "cfor (\<lambda>i u. cbind (aget (s @ rest) i) (\<lambda>c. Ret (if P c then Stop v else Next u)))
     (range0 (int (length s))) () = Ret (if list_ex P s then Stop v else Next ())"
proof -
  have "cfor (\<lambda>i u. cbind (aget (s @ rest) i) (\<lambda>c. Ret (if P c then Stop v else Next u)))
      (map int [0..<k]) () = Ret (if list_ex P (take k s) then Stop v else Next ())"
    if "k \<le> length s" for k
    using that by (induction k) (auto simp: cfor_append nth_append take_Suc_conv_app_nth)
  from this [of "length s"] show ?thesis by (simp add: range0_of_nat)
qed

definition lineChar :: "char \<Rightarrow> bool" where
  "lineChar c \<longleftrightarrow> isdigit c \<or> c = CHR '' '' \<or> c = CHR ''+'' \<or> c = CHR ''-''"

lemma isChar_line:
  assumes "no_nul s"
  shows "isChar (s @ NUL # rest) = Ret (if list_all lineChar s then 0 else 1)"
proof -
  have body: "(if \<not> isdigit c
        then (if c = CHR '' '' \<or> c = CHR ''+'' \<or> c = CHR ''-'' then Next u else Stop 1) else Next u) =
      (if \<not> lineChar c then Stop 1 else Next u)" for c and u :: unit
    by (auto simp: lineChar_def)
  show ?thesis unfolding isChar_def body strlen_terminated [OF assms]
    using cfor_any [of s "NUL # rest" "\<lambda>c. \<not> lineChar c" "1::int"]
    by (auto simp: list_all_iff list_ex_iff)
qed

lemma isSpace_line:
  assumes "no_nul s"
  shows "isSpace (s @ NUL # rest) = Ret (if CHR '' '' \<in> set s then 1 else 0)"
  unfolding isSpace_def strlen_terminated [OF assms]
  using cfor_any [of s "NUL # rest" "\<lambda>c. c = CHR '' ''" "1::int"] by (auto simp: list_ex_iff)

lemma strchr_line: "no_nul s \<Longrightarrow> strchr (s @ NUL # rest) c = Ret (c \<in> set s)"
  by (simp add: strchr_def cstring_terminated)

lemma fgets_line:
  assumes "newline \<notin> set l" and "length l \<le> 98" and "length buf = 100"
  shows "\<exists>r. fgets 100 buf (l @ newline # rest) = Some (l @ newline # NUL # r, rest) \<and> length r = 98 - length l"
proof -
  have "takeWhile (\<lambda>c. c \<noteq> newline) (l @ newline # rest) = l" by (rule span_until [OF assms(1)])
  then show ?thesis using assms(2,3) by (simp add: fgets_def)
qed

lemma newline_not_nul [simp]: "newline \<noteq> NUL" "NUL \<noteq> newline"
  by (simp_all add: newline_def NUL_def)

lemma chomp_line:
  assumes "newline \<notin> set l" and "no_nul l"
  shows "chomp (l @ newline # NUL # r) = Ret (l @ NUL # NUL # r)"
proof -
  have "cstring (l @ newline # NUL # r) = Ret (l @ [newline])"
    using cstring_terminated [of "l @ [newline]" r] assms(2) by (simp add: no_nul_def)
  moreover have "takeWhile (\<lambda>c. c \<noteq> newline) (l @ [newline]) = l" by (rule span_until [OF assms(1)])
  ultimately show ?thesis by (simp add: chomp_def)
qed

subsection \<open>One line\<close>

text \<open>Copies between the kernel and the program's two buffers of 100 bytes succeed.\<close>

definition umem_ok :: "(ubuf, UMem) KLib \<Rightarrow> bool" where
  "umem_ok K \<longleftrightarrow> klib_ok K \<and>
     (\<forall>mem. length (inputBuf mem) = 100 \<longrightarrow> copy_from_user K mem InputBuf 100 = Some (inputBuf mem)) \<and>
     (\<forall>mem bs. length (outputBuf mem) = 100 \<and> length bs \<le> 100 \<longrightarrow>
        copy_to_user K mem OutputBuf bs = (True, mem\<lparr>outputBuf := bs @ drop (length bs) (outputBuf mem)\<rparr>))"

lemma umem_okD:
  assumes "umem_ok K"
  shows "klib_ok K"
    and "length (inputBuf mem) = 100 \<Longrightarrow> copy_from_user K mem InputBuf 100 = Some (inputBuf mem)"
    and "length (outputBuf mem) = 100 \<Longrightarrow> length bs \<le> 100 \<Longrightarrow>
      copy_to_user K mem OutputBuf bs = (True, mem\<lparr>outputBuf := bs @ drop (length bs) (outputBuf mem)\<rparr>)"
  using assms unfolding umem_ok_def by blast+

text \<open>
  The kinds of line the assignment distinguishes: a number (its digits), a sum, a
  difference, and anything with a character that belongs to none of these.
\<close>

datatype request = Number string | Sum nat string string nat | Diff nat string string nat | Junk string

fun lineOf :: "request \<Rightarrow> string" where
  "lineOf (Number ds) = ds"
| "lineOf (Sum a s1 s2 b) = showNat a @ s1 @ CHR ''+'' # s2 @ showNat b"
| "lineOf (Diff a s1 s2 b) = showNat a @ s1 @ CHR ''-'' # s2 @ showNat b"
| "lineOf (Junk s) = s"

fun kind_ok :: "request \<Rightarrow> bool" where
  "kind_ok (Number ds) \<longleftrightarrow> ds \<noteq> [] \<and> list_all isdigit ds"
| "kind_ok (Sum a s1 s2 b) \<longleftrightarrow> blanks s1 \<and> blanks s2 \<and> long_range (int a) \<and> long_range (int b)"
| "kind_ok (Diff a s1 s2 b) \<longleftrightarrow> blanks s1 \<and> blanks s2 \<and> long_range (int a) \<and> long_range (int b)"
| "kind_ok (Junk s) \<longleftrightarrow> no_nul s \<and> newline \<notin> set s \<and> \<not> list_all lineChar s"

text \<open>The answer the assignment asks for: the reverse, and the opposite operation.\<close>

fun replyOf :: "request \<Rightarrow> reply" where
  "replyOf (Number ds) = Output (rev ds)"
| "replyOf (Sum a s1 s2 b) = Output (showInt (int a - int b))"
| "replyOf (Diff a s1 s2 b) = Output (showInt (wrap64 (int a + int b)))"
| "replyOf (Junk s) = WrongInput"

definition umem :: "UMem \<Rightarrow> bool" where
  "umem mem \<longleftrightarrow> length (inputBuf mem) = 100 \<and> length (outputBuf mem) = 100"

lemma lineChar_line: "list_all lineChar s \<Longrightarrow> no_nul s \<and> newline \<notin> set s"
  by (auto simp: list_all_iff lineChar_def no_nul_def NUL_def newline_def isdigit_def)

lemma kind_chars: "kind_ok (Number ds) \<Longrightarrow> list_all lineChar ds"
  "blanks s1 \<Longrightarrow> blanks s2 \<Longrightarrow> list_all lineChar (showNat a @ s1 @ CHR ''+'' # s2 @ showNat b)"
  "blanks s1 \<Longrightarrow> blanks s2 \<Longrightarrow> list_all lineChar (showNat a @ s1 @ CHR ''-'' # s2 @ showNat b)"
  using showNat_digits by (auto simp: list_all_iff lineChar_def blanks_def)

lemma lineOf_line: "kind_ok r \<Longrightarrow> no_nul (lineOf r) \<and> newline \<notin> set (lineOf r) \<and> lineOf r \<noteq> []"
  using kind_chars lineChar_line by (cases r) (auto simp: newline_def NUL_def)

text \<open>A successful answer is what gets printed.\<close>

lemma answers_print:
  assumes "umem_ok K" and "umem mem" and "no_nul s" and "length s < 100"
  shows "\<exists>mem'. answers K mem OutputBuf s = Ret (0, mem') \<and> cstring (outputBuf mem') = Ret s \<and> umem mem'"
  using assms umem_okD(3) [OF assms(1), of mem "s @ [NUL]"] cstring_terminated [OF assms(3)]
  by (simp add: answers_def umem_def)

lemma a2turn_call:
  assumes "umem_ok K" and "umem mem" and "inputBuf mem = s @ NUL # rest" and "list_all lineChar s"
    and "syscall K (if CHR ''+'' \<in> set s then 451 else if CHR ''-'' \<in> set s then 452 else 450) mem =
      cbind (answers K mem OutputBuf out) (\<lambda>(r, m). Ret (if r < 0 then -1 else r, m))"
    and "CHR ''+'' \<in> set s \<or> CHR ''-'' \<in> set s \<or> CHR '' '' \<notin> set s"
    and "no_nul out" and "length out < 100"
  shows "\<exists>mem'. a2turn K mem = Ret (Output out, mem') \<and> umem mem'"
proof -
  have nn: "no_nul s" using lineChar_line [OF assms(4)] by simp
  from answers_print [OF assms(1,2,7,8)] obtain mem' where
    "answers K mem OutputBuf out = Ret (0, mem')" "cstring (outputBuf mem') = Ret out" "umem mem'" by blast
  with assms(3-6) show ?thesis
    by (auto simp: a2turn_def strchr_line [OF nn] isChar_line [OF nn] isSpace_line [OF nn] guarded_def
        SYSCALL_PLUS_def SYSCALL_MINUS_def SYSCALL_STRING_REVERT_def)
qed

lemma a2turn_junk:
  assumes "inputBuf mem = s @ NUL # rest" and "no_nul s" and "\<not> list_all lineChar s"
  shows "a2turn K mem = Ret (WrongInput, mem)"
  using assms by (auto simp: a2turn_def strchr_line isChar_line isSpace_line guarded_def)

lemma digits_no_ops: "list_all isdigit ds \<Longrightarrow> CHR ''+'' \<notin> set ds \<and> CHR ''-'' \<notin> set ds \<and> CHR '' '' \<notin> set ds"
  by (auto simp: list_all_iff isdigit_def)

lemma diff_no_plus: "blanks s1 \<Longrightarrow> blanks s2 \<Longrightarrow>
    CHR ''+'' \<notin> set (showNat a @ s1 @ CHR ''-'' # s2 @ showNat b)"
  using digits_no_ops showNat_digits by (auto simp: blanks_def list_all_iff)

lemma a2turn_reply:
  assumes "umem_ok K" and "umem mem" and "kind_ok r" and "inputBuf mem = lineOf r @ NUL # rest"
  shows "\<exists>mem'. a2turn K mem = Ret (replyOf r, mem') \<and> umem mem'"
proof -
  have inp: "copy_from_user K mem InputBuf 100 = Some (lineOf r @ NUL # rest)"
    using umem_okD(2) [OF assms(1), of mem] assms(2,4) by (simp add: umem_def)
  have len: "length (lineOf r) < 100" using assms(2,4) by (simp add: umem_def)
  note line = lineOf_line [OF assms(3)] and K = umem_okD(1) [OF assms(1)]
  show ?thesis
  proof (cases r)
    case (Number ds)
    then have d: "list_all isdigit ds" and lc: "list_all lineChar ds"
      using assms(3) kind_chars(1) by auto
    have "sys_string_revert K InputBuf OutputBuf mem = answers K mem OutputBuf (rev ds)"
      using Number inp line len by (intro string_revert_correct [of K mem InputBuf ds rest]) auto
    then show ?thesis
      using Number line len digits_no_ops [OF d] assms(4) lc
      by (simp, intro a2turn_call [OF assms(1,2), of ds rest]) (auto simp: syscall_def no_nul_def)
  next
    case (Sum a s1 s2 b)
    with assms(3) have b: "blanks s1" "blanks s2" "long_range (int a)" "long_range (int b)" by auto
    then have nw: "wrap64 (int a - int b) = int a - int b" "long_range (int a - int b)"
      by (auto intro!: wrap64_id simp: long_range_def)
    have "sys_plus_revert K InputBuf OutputBuf mem = answers K mem OutputBuf (showInt (int a - int b))"
      using arith_revert_correct [OF K _ b(1,2) _ b(3,4), of mem InputBuf "CHR ''+''" rest] inp Sum nw
      by (simp add: sys_plus_revert_def)
    then show ?thesis
      using Sum assms(4) length_showInt [OF nw(2)] kind_chars(2) [OF b(1,2)] showInt_no_nul
      by (simp, intro a2turn_call [OF assms(1,2), of "showNat a @ s1 @ CHR ''+'' # s2 @ showNat b" rest])
        (auto simp: syscall_def)
  next
    case (Diff a s1 s2 b)
    with assms(3) have b: "blanks s1" "blanks s2" "long_range (int a)" "long_range (int b)" by auto
    have lr: "long_range (wrap64 (int a + int b))"
      using sint_ge [of "word_of_int (int a + int b) :: 64 word"] sint_lt [of "word_of_int (int a + int b) :: 64 word"]
      unfolding wrap64_def long_range_def by simp
    have "sys_minus_revert K InputBuf OutputBuf mem = answers K mem OutputBuf (showInt (wrap64 (int a + int b)))"
      using arith_revert_correct [OF K _ b(1,2) _ b(3,4), of mem InputBuf "CHR ''-''" rest] inp Diff
      by (simp add: sys_minus_revert_def)
    then show ?thesis
      using Diff assms(4) length_showInt [OF lr] kind_chars(3) [OF b(1,2)] showInt_no_nul diff_no_plus [OF b(1,2), of a b]
      by (simp, intro a2turn_call [OF assms(1,2), of "showNat a @ s1 @ CHR ''-'' # s2 @ showNat b" rest])
        (auto simp: syscall_def)
  next
    case (Junk s)
    then show ?thesis using a2turn_junk [of mem s rest K] assms by simp
  qed
qed

subsection \<open>The whole session\<close>

lemma a2loop_line:
  assumes "umem_ok K" and "umem mem" and "kind_ok r" and "length (lineOf r) \<le> 98"
  shows "\<exists>mem'. umem mem' \<and>
    a2loop K mem (lineOf r @ newline # rest) = cbind (a2loop K mem' rest) (\<lambda>rs. Ret (replyOf r # rs))"
proof -
  note line = lineOf_line [OF assms(3)]
  from line fgets_line [OF _ assms(4), of "inputBuf mem" rest] assms(2) obtain q where
    f: "fgets 100 (inputBuf mem) (lineOf r @ newline # rest) = Some (lineOf r @ newline # NUL # q, rest)"
    and q: "length q = 98 - length (lineOf r)" by (auto simp: umem_def)
  let ?mem = "mem\<lparr>inputBuf := lineOf r @ NUL # NUL # q\<rparr>"
  have "umem ?mem" using assms(2,4) q by (simp add: umem_def)
  from a2turn_reply [OF assms(1) this assms(3), of "NUL # q"] obtain mem' where
    "a2turn K ?mem = Ret (replyOf r, mem')" "umem mem'" by auto
  with f line show ?thesis
    by (subst a2loop.simps) (auto simp: chomp_line strlen_terminated)
qed

lemma a2loop_stop: "umem mem \<Longrightarrow> a2loop K mem (newline # rest) = Ret []"
  using fgets_line [of "[]" "inputBuf mem" rest] chomp_line [of "[]"] strlen_terminated [of "[]"]
  by (subst a2loop.simps) (auto simp: umem_def no_nul_def)


lemma simpleLib_umem: "umem_ok simpleLib"
  using simpleLib_ok by (simp add: umem_ok_def) (simp add: simpleLib_def)


text \<open>
  C37: a number of exactly 99 digits ends the session. The buffer has no room for the end of
  its line, which the next turn reads as an empty line; later requests are never answered.
\<close>

theorem long_line_ends_session:
  assumes "umem_ok K" and "umem mem" and "list_all isdigit ds" and "length ds = 99"
  shows "a2loop K mem (ds @ newline # rest) = Ret [Output (rev ds)]"
proof -
  have k: "kind_ok (Number ds)" using assms(3,4) by auto
  have line: "no_nul ds" "newline \<notin> set ds" "ds \<noteq> []" using lineOf_line [OF k] by simp_all
  have "takeWhile (\<lambda>c. c \<noteq> newline) (ds @ newline # rest) = ds" by (rule span_until [OF line(2)])
  then have f: "fgets 100 (inputBuf mem) (ds @ newline # rest) = Some (ds @ [NUL], newline # rest)"
    using assms(2,4) by (simp add: fgets_def umem_def)
  have tw: "takeWhile (\<lambda>c. c \<noteq> newline) ds = ds" using line(2) by (auto simp: takeWhile_eq_all_conv)
  have c: "chomp (ds @ [NUL]) = Ret (ds @ [NUL])"
    using cstring_terminated [OF line(1), of "[]"] by (simp add: chomp_def tw)
  let ?mem = "mem\<lparr>inputBuf := ds @ [NUL]\<rparr>"
  have "umem ?mem" using assms(2,4) by (simp add: umem_def)
  from a2turn_reply [OF assms(1) this k, of "[]"] obtain mem' where
    "a2turn K ?mem = Ret (Output (rev ds), mem')" "umem mem'" by auto
  with f c line show ?thesis
    using strlen_terminated [OF line(1), of "[]"] a2loop_stop [of mem' K rest]
    by (subst a2loop.simps) simp
qed

theorem long_line_ends_session_witness:
  "a2loop simpleLib \<lparr>inputBuf = replicate 100 NUL, outputBuf = replicate 100 NUL\<rparr>
     (replicate 99 CHR ''7'' @ newline # ''12'') = Ret [Output (rev (replicate 99 CHR ''7''))]"
  by (rule long_line_ends_session [OF simpleLib_umem]) (simp_all add: umem_def isdigit_def list_all_iff)

end
