(* ===== verification/NewPs.thy ===== *)
theory NewPs
  imports Revert
begin

section \<open>The process lister (src/1/newps.c)\<close>

text \<open>
  The program walks \<open>/proc\<close>, parses \<open>stat\<close> of every process, finds the terminal behind
  its standard input and prints the processes on its own terminal. The directory is the list
  of entries \<open>readdir\<close> returns; for each entry the model has the text of its \<open>stat\<close>
  file and the target of its \<open>fd/0\<close> link, \<open>None\<close> where the call fails. Buffers are
  lists of 256 characters whose initial contents are arbitrary.
\<close>

subsection \<open>The terminal name\<close>

fun strstr :: "string \<Rightarrow> string \<Rightarrow> nat option" where
  "strstr s pat =
     (if take (length pat) s = pat then Some 0
      else case s of [] \<Rightarrow> None | _ # r \<Rightarrow> map_option Suc (strstr r pat))"

declare strstr.simps [simp del]

definition memmove :: "char list \<Rightarrow> int \<Rightarrow> int \<Rightarrow> int \<Rightarrow> char list cres" where
  "memmove buf dst src n =
     (if 0 \<le> dst \<and> 0 \<le> src \<and> 0 \<le> n \<and> src + n \<le> int (length buf) \<and> dst + n \<le> int (length buf)
      then Ret (take (nat dst) buf @ take (nat n) (drop (nat src) buf) @ drop (nat (dst + n)) buf)
      else UB)"

text \<open>\<open>readlink\<close> stores at most 255 characters, without terminator, and returns their number.\<close>

definition readlinkInto :: "char list \<Rightarrow> string \<Rightarrow> int \<times> char list" where
  "readlinkInto buf t = (let u = take 255 t in (int (length u), u @ drop (length u) buf))"

definition dropDev :: "char list \<Rightarrow> int \<Rightarrow> char list cres" where
  "dropDev buf len =
     cbind (cstring buf) (\<lambda>s.
     case strstr s ''/dev/'' of
       None \<Rightarrow> Ret buf
     | Some p \<Rightarrow>
         cbind (memmove buf 0 (int p + 5) (len - int p + 5)) (\<lambda>b. aset b (len - 5) NUL))"

text \<open>A failed \<open>readlink\<close> is reported, and then the cell before the buffer is written.\<close>

definition get_self_tty :: "char list \<Rightarrow> string option \<Rightarrow> char list cres" where
  "get_self_tty buf link =
     (case link of
        None \<Rightarrow> aset buf (-1) NUL
      | Some t \<Rightarrow> (case readlinkInto buf t of (len, b) \<Rightarrow> cbind (aset b len NUL) (\<lambda>b'. dropDev b' len)))"

definition entryTty :: "char list \<Rightarrow> string option \<Rightarrow> char list cres" where
  "entryTty buf link =
     (case link of
        None \<Rightarrow> Ret (CHR ''?'' # NUL # drop 2 buf)
      | Some t \<Rightarrow> (case readlinkInto buf t of (len, b) \<Rightarrow> cbind (aset b len NUL) (\<lambda>b'. dropDev b' len)))"

subsection \<open>The stat file\<close>

fun scanSkips :: "nat \<Rightarrow> string \<Rightarrow> string option" where
  "scanSkips 0 s = Some s"
| "scanSkips (Suc n) s = (case scanSkip s of ScanVal _ r \<Rightarrow> scanSkips n r | _ \<Rightarrow> None)"

text \<open>
  The scan of one \<open>stat\<close> file: \<open>None\<close> when fewer than three values were assigned; the
  last value may be missing. The name has no length limit but a buffer of 256 characters.
\<close>

definition scanTimes :: "string \<Rightarrow> (int \<times> int option) option cres" where
  "scanTimes s =
     (case scanLong s of
        ScanVal ut r \<Rightarrow>
          (case scanLong r of
             ScanVal st _ \<Rightarrow> Ret (Some (ut, Some st))
           | ScanOverflow \<Rightarrow> UB
           | _ \<Rightarrow> Ret (Some (ut, None)))
      | ScanOverflow \<Rightarrow> UB
      | _ \<Rightarrow> Ret None)"

definition scanAfterName :: "string \<Rightarrow> (int \<times> int option) option cres" where
  "scanAfterName s =
     (case dropWhile isspace s of
        [] \<Rightarrow> Ret None
      | _ # r \<Rightarrow> (case scanSkips 10 r of None \<Rightarrow> Ret None | Some r' \<Rightarrow> scanTimes r'))"

definition scanStat :: "string \<Rightarrow> (int \<times> string \<times> int \<times> int option) option cres" where
  "scanStat s =
     (case scanInt s of
        ScanVal pid r \<Rightarrow>
          (case dropWhile isspace r of
             [] \<Rightarrow> Ret None
           | c # r1 \<Rightarrow>
               if c \<noteq> CHR ''('' then Ret None
               else
                 let comm = takeWhile (\<lambda>c. c \<noteq> CHR '')'') r1 in
                 if comm = [] then Ret None
                 else if 256 \<le> length comm then UB
                 else case dropWhile (\<lambda>c. c \<noteq> CHR '')'') r1 of
                   [] \<Rightarrow> Ret None
                 | _ # r3 \<Rightarrow> cbind (scanAfterName r3) (\<lambda>t.
                     case t of None \<Rightarrow> Ret None | Some (ut, st) \<Rightarrow> Ret (Some (pid, comm, ut, st))))
      | ScanOverflow \<Rightarrow> UB
      | _ \<Rightarrow> Ret None)"

subsection \<open>The listing\<close>

record ProcEntry =
  d_name :: string
  d_isdir :: bool
  statText :: "string option"
  fd0 :: "string option"

record PsRow =
  psPid :: int
  psTty :: string
  psHours :: int
  psMinutes :: int
  psSeconds :: int
  psComm :: string

definition wrap32 :: "int \<Rightarrow> int" where
  "wrap32 n = sint (word_of_int n :: 32 word)"

definition cpuTime :: "int \<Rightarrow> int \<Rightarrow> int \<Rightarrow> (int \<times> int \<times> int) cres" where
  "cpuTime hertz utime stime =
     (if \<not> long_range (utime + stime) then UB
      else cbind (cdiv (utime + stime) hertz) (\<lambda>q.
        let seconds = wrap32 q; minutes = seconds sdiv 60; hours = minutes sdiv 60 in
        Ret (hours, minutes smod 60, seconds smod 60)))"

text \<open>
  The state of the loop: the buffer \<open>tty\<close>, the variable \<open>stime\<close> (kept from one process
  to the next when a scan does not assign it) and the rows printed so far.
\<close>

record PsState =
  ttyBuf :: "char list"
  stimeVar :: "int option"
  psRows :: "PsRow list"

definition psEntry :: "int \<Rightarrow> string \<Rightarrow> ProcEntry \<Rightarrow> PsState \<Rightarrow> PsState cres" where
  "psEntry hertz current e s =
     (if \<not> (d_isdir e \<and> d_name e \<noteq> [] \<and> isdigit (hd (d_name e))) then Ret s
      else case statText e of
        None \<Rightarrow> Ret s
      | Some txt \<Rightarrow>
          cbind (scanStat txt) (\<lambda>r. case r of
            None \<Rightarrow> Ret s
          | Some (pid, comm, utime, stimeNew) \<Rightarrow>
              let stime = (case stimeNew of None \<Rightarrow> stimeVar s | Some v \<Rightarrow> Some v) in
              cbind (entryTty (ttyBuf s) (fd0 e)) (\<lambda>buf.
              cbind (cstring buf) (\<lambda>tty.
              let s' = s\<lparr>ttyBuf := buf, stimeVar := stime\<rparr> in
              if tty \<noteq> current then Ret s'
              else case stime of
                None \<Rightarrow> UB
              | Some st \<Rightarrow> cbind (cpuTime hertz utime st) (\<lambda>(h, m, sec).
                  Ret (s'\<lparr>psRows := psRows s' @ [\<lparr>psPid = pid, psTty = tty, psHours = h,
                    psMinutes = m, psSeconds = sec, psComm = comm\<rparr>]\<rparr>))))))"

fun psLoop :: "int \<Rightarrow> string \<Rightarrow> ProcEntry list \<Rightarrow> PsState \<Rightarrow> PsState cres" where
  "psLoop hertz current [] s = Ret s"
| "psLoop hertz current (e # es) s = cbind (psEntry hertz current e s) (\<lambda>s'. psLoop hertz current es s')"

text \<open>The program: its exit code and the rows it prints.\<close>

definition newps ::
    "int \<Rightarrow> char list \<Rightarrow> char list \<Rightarrow> string option \<Rightarrow> ProcEntry list option \<Rightarrow> (int \<times> PsRow list) cres" where
  "newps hertz selfBuf tty selfLink dir =
     cbind (get_self_tty selfBuf selfLink) (\<lambda>current_buf.
     case dir of
       None \<Rightarrow> Ret (1, [])
     | Some es \<Rightarrow>
         cbind (cstring current_buf) (\<lambda>current.
         cbind (psLoop hertz current es \<lparr>ttyBuf = tty, stimeVar = None, psRows = []\<rparr>) (\<lambda>s.
           Ret (0, psRows s))))"

subsection \<open>Terminal names\<close>

definition stripped :: "string \<Rightarrow> string" where
  "stripped t = (case strstr t ''/dev/'' of None \<Rightarrow> t | Some p \<Rightarrow> drop (p + 5) t)"

lemma strstr_bound: "strstr s pat = Some p \<Longrightarrow> take (length pat) (drop p s) = pat \<and> p + length pat \<le> length s"
proof (induction s arbitrary: p)
  case Nil
  then show ?case by (auto simp: strstr.simps [of "[]"] split: if_splits)
next
  case (Cons c s)
  from Cons.prems consider "take (length pat) (c # s) = pat" "p = 0"
    | q where "strstr s pat = Some q" "p = Suc q"
    by (auto simp: strstr.simps [of "c # s"] split: if_splits)
  then show ?case
  proof cases
    case 1
    have "length (take (length pat) (c # s)) \<le> length (c # s)" by simp
    then have "length pat \<le> length (c # s)" using 1(1) by (metis length_take min.absorb_iff2 nat_le_linear)
    then show ?thesis using 1 by simp
  next
    case 2
    then show ?thesis using Cons.IH [OF 2(1)] by simp
  qed
qed

text \<open>Where the buffer holds a short enough target, the name is what follows the prefix.\<close>

lemma dropDev_correct:
  assumes "no_nul t" and "length t \<le> 246" and "length r = 255 - length t"
  shows "\<exists>b. dropDev (t @ NUL # r) (int (length t)) = Ret b \<and> length b = 256 \<and> cstring b = Ret (stripped t)"
proof (cases "strstr t ''/dev/''")
  case None
  then show ?thesis using assms by (simp add: dropDev_def cstring_terminated stripped_def)
next
  case (Some p)
  from strstr_bound [OF Some] have p: "p + 5 \<le> length t" by simp
  let ?u = "drop (p + 5) t" and ?m = "length t - p - 5"
  have n: "nat (int (length t) - int p + 5) = ?m + 10" "nat (int p + 5) = p + 5" using p by simp_all
  have "take (?m + 10) (drop (p + 5) (t @ NUL # r)) = ?u @ NUL # take 9 r" using p by simp
  then have mv: "memmove (t @ NUL # r) 0 (int p + 5) (int (length t) - int p + 5) =
      Ret (?u @ NUL # take 9 r @ drop (?m + 10) (t @ NUL # r))"
    using assms p n by (simp add: memmove_def)
  define v where "v = take 9 r @ drop (?m + 10) (t @ NUL # r)"
  have mv': "memmove (t @ NUL # r) 0 (int p + 5) (int (length t) - int p + 5) = Ret (?u @ NUL # v)"
    using mv by (simp only: v_def)
  have len: "length (?u @ NUL # v) = 256" using assms p by (auto simp: v_def)
  have idx: "int (length t) - 5 = int (length t - 5)" "length t - 5 < 256" using p assms by simp_all
  have "aset (?u @ NUL # v) (int (length t) - 5) NUL = Ret ((?u @ NUL # v)[length t - 5 := NUL])"
    unfolding idx(1) using len idx(2) by (simp only: aset_nat)
  also have "(?u @ NUL # v)[length t - 5 := NUL] = ?u @ (NUL # v)[p := NUL]"
  proof -
    have "length ?u \<le> length t - 5" "length t - 5 - length ?u = p" using p by auto
    then show ?thesis by (simp only: list_update_append) simp
  qed
  also obtain w where w: "(NUL # v)[p := NUL] = NUL # w" by (cases p) auto
  finally have st: "aset (?u @ NUL # v) (int (length t) - 5) NUL = Ret (?u @ NUL # w)" .
  have nn: "no_nul ?u" using assms(1) by (auto simp: no_nul_def dest: in_set_dropD)
  have "length (?u @ NUL # w) = 256" using len w by (metis length_append length_list_update)
  with mv' st Some show ?thesis
    by (simp add: dropDev_def cstring_terminated [OF assms(1)] stripped_def cstring_terminated [OF nn])
qed

lemma drop_cell:
  assumes "length buf = 256" and "n \<le> 255"
  shows "\<exists>c r. drop n buf = c # r \<and> length r = 255 - n"
proof -
  have "drop n buf = buf ! n # drop (Suc n) buf" using assms by (simp add: Cons_nth_drop_Suc)
  then show ?thesis using assms by auto
qed

lemma entryTty_correct:
  assumes "length buf = 256" and "no_nul t" and "length t \<le> 246"
  shows "\<exists>b. entryTty buf (Some t) = Ret b \<and> length b = 256 \<and> cstring b = Ret (stripped t)"
proof -
  from assms(3) have "length t \<le> 255" by simp
  from drop_cell [OF assms(1) this] obtain c r where
    d: "drop (length t) buf = c # r" "length r = 255 - length t" by blast
  have "aset (t @ c # r) (int (length t)) NUL = Ret (t @ NUL # r)" by simp
  with dropDev_correct [OF assms(2,3) d(2)] show ?thesis
    using assms(3) d(1) by (simp add: entryTty_def readlinkInto_def)
qed

lemma self_tty_correct:
  assumes "length buf = 256" and "no_nul t" and "length t \<le> 246"
  shows "\<exists>b. get_self_tty buf (Some t) = Ret b \<and> length b = 256 \<and> cstring b = Ret (stripped t)"
  using entryTty_correct [OF assms] by (simp add: get_self_tty_def entryTty_def)

text \<open>
  C30: a terminal name is computed safely only for a link target of at most 246 characters.
  Then \<open>get_self_tty\<close> leaves the part after the first \<open>/dev/\<close>. A target with that prefix
  and 247 to 255 characters makes \<open>memmove\<close> read past the buffer, and a failed \<open>readlink\<close>
  writes before it.
\<close>

theorem get_self_tty_correct:
  assumes "length buf = 256" and "no_nul t" and "length t \<le> 255"
  shows "(length t \<le> 246 \<longrightarrow> (\<exists>b. get_self_tty buf (Some t) = Ret b \<and> cstring b = Ret (stripped t))) \<and>
    (246 < length t \<and> strstr t ''/dev/'' \<noteq> None \<longrightarrow> get_self_tty buf (Some t) = UB) \<and>
    get_self_tty buf None = UB"
proof -
  have "get_self_tty buf (Some t) = UB" if t: "246 < length t" "strstr t ''/dev/'' = Some p" for p
  proof -
    from drop_cell [OF assms(1,3)] obtain c r where
      d: "drop (length t) buf = c # r" "length r = 255 - length t" by blast
    have "aset (t @ c # r) (int (length t)) NUL = Ret (t @ NUL # r)" by simp
    moreover have "memmove (t @ NUL # r) 0 (int p + 5) (int (length t) - int p + 5) = UB"
      using t(1) d(2) assms(3) by (simp add: memmove_def)
    ultimately show ?thesis
      using assms(2,3) d(1) t(2) by (simp add: get_self_tty_def readlinkInto_def dropDev_def cstring_terminated)
  qed
  then show ?thesis
    using self_tty_correct [OF assms(1,2)] by (auto simp: get_self_tty_def aset_def)
qed

theorem get_self_tty_correct_witness:
  "\<exists>b. get_self_tty (replicate 256 CHR ''x'') (Some ''/dev/pts/0'') = Ret b \<and> cstring b = Ret (stripped ''/dev/pts/0'')"
  using get_self_tty_correct [of "replicate 256 CHR ''x''" "''/dev/pts/0''"]
  by (simp add: no_nul_def NUL_def)

subsection \<open>The processes of a system and their stat files\<close>

text \<open>What \<open>proc(5)\<close> documents of a process, as far as the scan reads it.\<close>

record Proc =
  prPid :: nat
  prComm :: string
  prState :: char
  prFields :: "int list"
  prUtime :: nat
  prStime :: nat
  prRest :: string
  prLink :: "string option"

definition statLine :: "Proc \<Rightarrow> string" where
  "statLine P = showNat (prPid P) @ '' ('' @ prComm P @ '') '' @ prState P #
     concat (map (\<lambda>v. CHR '' '' # showInt v) (prFields P)) @
     CHR '' '' # showNat (prUtime P) @ CHR '' '' # showNat (prStime P) @ prRest P"

definition proc_ok :: "Proc \<Rightarrow> bool" where
  "proc_ok P \<longleftrightarrow> int_range (int (prPid P)) \<and> length (prFields P) = 10 \<and> \<not> isspace (prState P) \<and>
     prComm P \<noteq> [] \<and> length (prComm P) < 256 \<and>
     long_range (int (prUtime P) + int (prStime P)) \<and>
     (prRest P = [] \<or> \<not> isdigit (hd (prRest P))) \<and>
     (case prLink P of None \<Rightarrow> True | Some t \<Rightarrow> no_nul t \<and> length t \<le> 246)"

definition procEntry :: "Proc \<Rightarrow> ProcEntry" where
  "procEntry P = \<lparr>d_name = showNat (prPid P), d_isdir = True, statText = Some (statLine P), fd0 = prLink P\<rparr>"

lemma space_facts [simp]: "isspace CHR '' ''" "\<not> isdigit CHR '' ''"
  by (simp_all add: isspace_def isdigit_def)

lemma scanSkips_fields:
  assumes "rest = [] \<or> \<not> isdigit (hd rest)"
  shows "scanSkips (length vs) (concat (map (\<lambda>v. CHR '' '' # showInt v) vs) @ rest) = Some rest"
proof (induction vs)
  case (Cons v vs)
  let ?r = "concat (map (\<lambda>v. CHR '' '' # showInt v) vs) @ rest"
  have "?r = [] \<or> \<not> isdigit (hd ?r)" using assms by (cases vs) auto
  then have "scanSkip ([CHR '' ''] @ showInt v @ ?r) = ScanVal v ?r"
    unfolding scanSkip_def by (intro scanNum_showInt) simp_all
  with Cons show ?case by simp
qed simp

lemma scanTimes_fields:
  assumes "long_range (int a)" and "long_range (int b)" and "rest = [] \<or> \<not> isdigit (hd rest)"
  shows "scanTimes (CHR '' '' # showNat a @ CHR '' '' # showNat b @ rest) = Ret (Some (int a, Some (int b)))"
proof -
  have "scanLong ([CHR '' ''] @ showNat a @ CHR '' '' # showNat b @ rest) = ScanVal (int a) (CHR '' '' # showNat b @ rest)"
    using assms(1) unfolding scanLong_def by (intro scanNum_show) simp_all
  moreover have "scanLong ([CHR '' ''] @ showNat b @ rest) = ScanVal (int b) rest"
    using assms(2,3) unfolding scanLong_def by (intro scanNum_show) simp_all
  ultimately show ?thesis by (simp add: scanTimes_def)
qed

lemma scanAfterName_fields:
  assumes "proc_ok P"
  shows "scanAfterName (CHR '' '' # prState P # concat (map (\<lambda>v. CHR '' '' # showInt v) (prFields P)) @
     CHR '' '' # showNat (prUtime P) @ CHR '' '' # showNat (prStime P) @ prRest P) =
   Ret (Some (int (prUtime P), Some (int (prStime P))))"
proof -
  let ?r = "CHR '' '' # showNat (prUtime P) @ CHR '' '' # showNat (prStime P) @ prRest P"
  have "scanSkips 10 (concat (map (\<lambda>v. CHR '' '' # showInt v) (prFields P)) @ ?r) = Some ?r"
    using scanSkips_fields [of ?r "prFields P"] assms by (simp add: proc_ok_def)
  moreover have "scanTimes ?r = Ret (Some (int (prUtime P), Some (int (prStime P))))"
    using assms by (intro scanTimes_fields) (auto simp: proc_ok_def long_range_def)
  ultimately show ?thesis using assms by (simp add: scanAfterName_def proc_ok_def)
qed

lemma scanStat_line:
  assumes "proc_ok P" and "CHR '')'' \<notin> set (prComm P)"
  shows "scanStat (statLine P) =
    Ret (Some (int (prPid P), prComm P, int (prUtime P), Some (int (prStime P))))"
proof -
  let ?r = "CHR '' '' # prState P # concat (map (\<lambda>v. CHR '' '' # showInt v) (prFields P)) @
     CHR '' '' # showNat (prUtime P) @ CHR '' '' # showNat (prStime P) @ prRest P"
  have pid: "scanInt (statLine P) = ScanVal (int (prPid P)) ('' ('' @ prComm P @ CHR '')'' # ?r)"
    using scan_show [of "prPid P" "'' ('' @ prComm P @ CHR '')'' # ?r" "[]"] assms
    by (simp add: statLine_def proc_ok_def)
  have p: "takeWhile (\<lambda>c. c \<noteq> CHR '')'') (prComm P @ CHR '')'' # ?r) = prComm P"
    "dropWhile (\<lambda>c. c \<noteq> CHR '')'') (prComm P @ CHR '')'' # ?r) = CHR '')'' # ?r"
    using span_until [OF assms(2)] by simp_all
  have "\<not> isspace CHR ''(''" by (simp add: isspace_def)
  then show ?thesis
    using pid p scanAfterName_fields [OF assms(1)] assms(1)
    by (simp add: scanStat_def proc_ok_def)
qed

text \<open>A name that ends in a parenthesis breaks the scan after two values.\<close>

lemma scanStat_paren:
  assumes "proc_ok P" and "prComm P = a @ '')''" and "CHR '')'' \<notin> set a" and "a \<noteq> []"
    and "\<not> isdigit (prState P)" and "prState P \<notin> {CHR ''-'', CHR ''+''}"
  shows "scanStat (statLine P) = Ret None"
proof -
  let ?q = "prState P # concat (map (\<lambda>v. CHR '' '' # showInt v) (prFields P)) @
     CHR '' '' # showNat (prUtime P) @ CHR '' '' # showNat (prStime P) @ prRest P"
  have pid: "scanInt (statLine P) = ScanVal (int (prPid P)) ('' ('' @ a @ CHR '')'' # CHR '')'' # CHR '' '' # ?q)"
    using scan_show [of "prPid P" "'' ('' @ a @ CHR '')'' # CHR '')'' # CHR '' '' # ?q" "[]"] assms(1,2)
    by (simp add: statLine_def proc_ok_def)
  have p: "takeWhile (\<lambda>c. c \<noteq> CHR '')'') (a @ CHR '')'' # CHR '')'' # CHR '' '' # ?q) = a"
    "dropWhile (\<lambda>c. c \<noteq> CHR '')'') (a @ CHR '')'' # CHR '')'' # CHR '' '' # ?q) = CHR '')'' # CHR '')'' # CHR '' '' # ?q"
    using span_until [OF assms(3)] by simp_all
  have "\<not> isspace CHR ''(''" "\<not> isspace CHR '')''" by (simp_all add: isspace_def)
  moreover have "scanSkip (CHR '' '' # ?q) = ScanFail ?q"
    using assms(1,5,6) by (simp add: scanSkip_def scanNum_def scanDigits_def proc_ok_def)
  then have "scanAfterName (CHR '')'' # CHR '' '' # ?q) = Ret None"
    using \<open>\<not> isspace CHR '')''\<close> by (simp add: scanAfterName_def eval_nat_numeral)
  ultimately show ?thesis
    using pid p assms(1,2,4) by (simp add: scanStat_def proc_ok_def)
qed

subsection \<open>The rows printed\<close>

definition ttyName :: "Proc \<Rightarrow> string" where
  "ttyName P = (case prLink P of None \<Rightarrow> ''?'' | Some t \<Rightarrow> stripped t)"

text \<open>The row of a process, from its total time in seconds.\<close>

definition psRow :: "int \<Rightarrow> Proc \<Rightarrow> PsRow" where
  "psRow hertz P = (let sec = (int (prUtime P) + int (prStime P)) div hertz in
     \<lparr>psPid = int (prPid P), psTty = ttyName P, psHours = sec div 3600, psMinutes = sec div 60 mod 60,
      psSeconds = sec mod 60, psComm = prComm P\<rparr>)"

text \<open>The time fits the \<open>int\<close> it is stored in.\<close>

definition time_ok :: "int \<Rightarrow> Proc \<Rightarrow> bool" where
  "time_ok hertz P \<longleftrightarrow> int_range ((int (prUtime P) + int (prStime P)) div hertz)"

lemma wrap32_id: "int_range n \<Longrightarrow> wrap32 n = n"
  by (simp add: wrap32_def int_range_def sint_sbintrunc' signed_take_bit_int_eq_self)

lemma cpuTime_row:
  assumes "0 < hertz" and "proc_ok P" and "time_ok hertz P"
  shows "cpuTime hertz (int (prUtime P)) (int (prStime P)) =
    Ret (psHours (psRow hertz P), psMinutes (psRow hertz P), psSeconds (psRow hertz P))"
proof -
  let ?q = "(int (prUtime P) + int (prStime P)) div hertz"
  have "0 \<le> ?q" using assms(1) by (simp add: pos_imp_zdiv_nonneg_iff)
  moreover have "?q div 60 div 60 = ?q div 3600" using zdiv_zmult2_eq [of 60 ?q 60] by simp
  ultimately show ?thesis
    using assms wrap32_id [of ?q] by (simp add: cpuTime_def psRow_def Let_def time_ok_def proc_ok_def)
qed

text \<open>What the directory holds: processes, and entries that are not (readable) processes.\<close>

datatype psItem = IsProc Proc | Other ProcEntry

fun itemEntry :: "psItem \<Rightarrow> ProcEntry" where
  "itemEntry (IsProc P) = procEntry P"
| "itemEntry (Other e) = e"

fun itemProcs :: "psItem \<Rightarrow> Proc list" where
  "itemProcs (IsProc P) = [P]"
| "itemProcs (Other e) = []"

fun item_ok :: "int \<Rightarrow> psItem \<Rightarrow> bool" where
  "item_ok hertz (IsProc P) \<longleftrightarrow> proc_ok P \<and> CHR '')'' \<notin> set (prComm P) \<and> time_ok hertz P"
| "item_ok hertz (Other e) \<longleftrightarrow>
     \<not> (d_isdir e \<and> d_name e \<noteq> [] \<and> isdigit (hd (d_name e))) \<or> statText e = None"

lemma proc_tty:
  assumes "proc_ok P" and "length buf = 256"
  shows "\<exists>b. entryTty buf (prLink P) = Ret b \<and> length b = 256 \<and> cstring b = Ret (ttyName P)"
proof (cases "prLink P")
  case None
  have "no_nul ''?''" by (simp add: no_nul_def NUL_def)
  from cstring_terminated [OF this, of "drop 2 buf"] None assms(2) show ?thesis
    by (simp add: entryTty_def ttyName_def)
next
  case (Some t)
  with entryTty_correct [OF assms(2), of t] assms(1) show ?thesis by (simp add: proc_ok_def ttyName_def)
qed

lemma showNat_first: "isdigit (hd (showNat n))" "showNat n \<noteq> []"
  using showNat_digits [of n] by (cases "showNat n", auto)

lemma psEntry_proc:
  assumes "0 < hertz" and "item_ok hertz (IsProc P)" and "length (ttyBuf s) = 256"
  shows "\<exists>s'. psEntry hertz cur (procEntry P) s = Ret s' \<and> length (ttyBuf s') = 256 \<and>
    psRows s' = psRows s @ (if ttyName P = cur then [psRow hertz P] else [])"
proof -
  from assms(2) have ok: "proc_ok P" "CHR '')'' \<notin> set (prComm P)" "time_ok hertz P" by simp_all
  obtain b where b: "entryTty (ttyBuf s) (prLink P) = Ret b" "length b = 256" "cstring b = Ret (ttyName P)"
    using proc_tty [OF ok(1) assms(3)] by blast
  have row: "\<lparr>psPid = int (prPid P), psTty = ttyName P, psHours = psHours (psRow hertz P),
      psMinutes = psMinutes (psRow hertz P), psSeconds = psSeconds (psRow hertz P), psComm = prComm P\<rparr> = psRow hertz P"
    by (simp add: psRow_def Let_def)
  show ?thesis
    using scanStat_line [OF ok(1,2)] b cpuTime_row [OF assms(1) ok(1,3)] showNat_first row
    by (cases "ttyName P = cur") (auto simp: psEntry_def procEntry_def)
qed

lemma psLoop_items:
  assumes "0 < hertz" and "list_all (item_ok hertz) items" and "length (ttyBuf s) = 256"
  shows "\<exists>s'. psLoop hertz cur (map itemEntry items) s = Ret s' \<and>
    psRows s' = psRows s @ map (psRow hertz) (filter (\<lambda>P. ttyName P = cur) (concat (map itemProcs items)))"
  using assms(2,3)
proof (induction items arbitrary: s)
  case (Cons x items)
  show ?case
  proof (cases x)
    case (IsProc P)
    with psEntry_proc [OF assms(1), of P s cur] Cons.prems obtain s1 where
      s1: "psEntry hertz cur (procEntry P) s = Ret s1" "length (ttyBuf s1) = 256"
      "psRows s1 = psRows s @ (if ttyName P = cur then [psRow hertz P] else [])" by auto
    with Cons.IH [of s1] Cons.prems IsProc show ?thesis by auto
  next
    case (Other e)
    with Cons.prems have "psEntry hertz cur e s = Ret s" by (auto simp: psEntry_def)
    with Cons Other show ?thesis by auto
  qed
qed simp

text \<open>
  C26: the listing. On a system whose process names have no closing parenthesis, the program
  exits with 0 and prints, in directory order, exactly the processes whose standard input is
  its own terminal, each with its pid, the terminal name, the processor time as hours, minutes
  and seconds, and its name; entries that are not readable processes are skipped.
\<close>

theorem newps_correct:
  assumes "0 < hertz" and "list_all (item_ok hertz) items" and "length b1 = 256" and "length b2 = 256"
    and "no_nul t" and "length t \<le> 246"
  shows "newps hertz b1 b2 (Some t) (Some (map itemEntry items)) =
    Ret (0, map (psRow hertz) (filter (\<lambda>P. ttyName P = stripped t) (concat (map itemProcs items))))"
proof -
  obtain b where "get_self_tty b1 (Some t) = Ret b" "cstring b = Ret (stripped t)"
    using self_tty_correct [OF assms(3,5,6)] by blast
  with psLoop_items [OF assms(1,2), of "\<lparr>ttyBuf = b2, stimeVar = None, psRows = []\<rparr>" "stripped t"] assms(4)
  show ?thesis by (auto simp: newps_def)
qed

definition shell :: Proc where
  "shell = \<lparr>prPid = 812, prComm = ''my bash'', prState = CHR ''S'', prFields = [811, 812, 812, -1, 0, 4, 5, 6, 7, 8],
     prUtime = 370000, prStime = 4321, prRest = '' 0 0'', prLink = Some ''/dev/pts/0''\<rparr>"

definition daemon :: Proc where
  "daemon = shell\<lparr>prPid := 9, prComm := ''(sd-pam)'', prLink := None\<rparr>"

theorem newps_correct_witness:
  "newps 100 (replicate 256 NUL) (replicate 256 NUL) (Some ''/dev/pts/0'')
     (Some (map itemEntry [Other \<lparr>d_name = ''net'', d_isdir = True, statText = None, fd0 = None\<rparr>, IsProc shell])) =
   Ret (0, map (psRow 100) (filter (\<lambda>P. ttyName P = stripped ''/dev/pts/0'')
     (concat (map itemProcs [Other \<lparr>d_name = ''net'', d_isdir = True, statText = None, fd0 = None\<rparr>, IsProc shell]))))"
  by (rule newps_correct)
    (simp_all add: no_nul_def NUL_def shell_def proc_ok_def time_ok_def int_range_def long_range_def isspace_def isdigit_def)

text \<open>
  C38: a process whose name ends in a closing parenthesis (such as \<open>(sd-pam)\<close>) is never
  listed, whatever its terminal: the scan takes the name's own parenthesis for the end of
  the field and fails on the next one.
\<close>

theorem newps_skips_paren:
  assumes "proc_ok P" and "prComm P = a @ '')''" and "CHR '')'' \<notin> set a" and "a \<noteq> []"
    and "\<not> isdigit (prState P)" and "prState P \<notin> {CHR ''-'', CHR ''+''}"
  shows "psEntry hertz cur (procEntry P) s = Ret s"
  using scanStat_paren [OF assms] showNat_first by (simp add: psEntry_def procEntry_def)

theorem newps_skips_paren_witness:
  "psEntry 100 ''?'' (procEntry daemon) \<lparr>ttyBuf = replicate 256 NUL, stimeVar = None, psRows = []\<rparr> =
   Ret \<lparr>ttyBuf = replicate 256 NUL, stimeVar = None, psRows = []\<rparr>"
  by (rule newps_skips_paren [of _ "''(sd-pam''"])
    (simp_all add: daemon_def shell_def proc_ok_def int_range_def long_range_def isspace_def isdigit_def)

end
