(* ===== verification/Assignment3.thy ===== *)
theory Assignment3
  imports Revert
begin

section \<open>The scheduling experiments (src/3/assignment3.c, src/3/20193018_PLUS-1/assignment3p.c)\<close>

text \<open>
  Two programs that start 21 children which all do the same array work. The first one lets the
  user choose a scheduling policy and reports elapsed times. Modelled are the array work (with
  32-bit wrap-around, on arbitrary initial contents), the choice of the policy, the system calls
  every child makes in order, and the elapsed time that is printed. The averages are computed in
  \<open>double\<close> and are not modelled. The second program runs its children one after the other.
\<close>

subsection \<open>The array work\<close>

type_synonym matrix = "32 word list list"

text \<open>One pass of the inner statement: \<open>result[k][j] += A[k][i] * B[i][j]\<close>.\<close>

definition cell :: "matrix \<Rightarrow> nat \<Rightarrow> nat \<Rightarrow> 32 word" where
  "cell m r c = m ! r ! c"

definition addCell :: "matrix \<Rightarrow> matrix \<Rightarrow> nat \<Rightarrow> nat \<Rightarrow> nat \<Rightarrow> matrix \<Rightarrow> matrix" where
  "addCell A B k i j result =
     result[k := (result ! k)[j := result ! k ! j + cell A k i * cell B i j]]"

definition workPass :: "matrix \<Rightarrow> matrix \<Rightarrow> matrix \<Rightarrow> matrix" where
  "workPass A B result =
     fold (\<lambda>k r. fold (\<lambda>i r. fold (\<lambda>j r. addCell A B k i j r) [0..<100] r) [0..<100] r) [0..<100] result"

definition perform_work :: "matrix \<Rightarrow> matrix \<Rightarrow> matrix" where
  "perform_work A B = (workPass A B ^^ 100) (replicate 100 (replicate 100 0))"

subsection \<open>The choice of the policy\<close>

datatype policy = SCHED_OTHER | SCHED_FIFO | SCHED_RR

record Choice =
  choicePolicy :: policy
  policyStr :: string
  timeslice :: "int option"

text \<open>
  \<open>fpOk\<close> says whether the time slice file can be opened. The name goes into a buffer of 50
  characters; a time slice that is not a number leaves the variable without value.
\<close>

definition readChoice :: "bool \<Rightarrow> string \<Rightarrow> (string \<times> Choice) cres" where
  "readChoice fpOk inp =
     (case scanWord inp of
        None \<Rightarrow> UB
      | Some (choice, rest) \<Rightarrow>
          if 50 \<le> length choice then UB
          else if choice = ''1'' then Ret (choice, \<lparr>choicePolicy = SCHED_OTHER, policyStr = ''CFS_DEFAULT'', timeslice = None\<rparr>)
          else if choice = ''2'' then Ret (choice, \<lparr>choicePolicy = SCHED_OTHER, policyStr = ''CFS_NICE'', timeslice = None\<rparr>)
          else if choice = ''3'' then Ret (choice, \<lparr>choicePolicy = SCHED_FIFO, policyStr = ''RT_FIFO'', timeslice = None\<rparr>)
          else if choice = ''4'' then
            (case scanInt rest of
               ScanVal ts _ \<Rightarrow>
                 if ts = 10 \<or> ts = 100 \<or> ts = 1000 then
                   if fpOk then Ret (choice, \<lparr>choicePolicy = SCHED_RR, policyStr = ''RT_RR'', timeslice = Some ts\<rparr>)
                   else Exit 1
                 else Exit 1
             | _ \<Rightarrow> UB)
          else Exit 1)"

subsection \<open>What a child does\<close>

datatype call =
    GetTime
  | SetPriority int
  | SetScheduler policy int
  | Work
  | WriteElapsed
  | ExitCall int

text \<open>The highest priority of a policy is what the kernel reports.\<close>

definition childCalls :: "(policy \<Rightarrow> int) \<Rightarrow> string \<Rightarrow> Choice \<Rightarrow> int \<Rightarrow> call list" where
  "childCalls prioMax choice c i =
     [GetTime] @
     (if choicePolicy c = SCHED_OTHER \<and> choice = ''2''
      then [SetPriority (if i < 7 then -20 else if i < 14 then 0 else 19)] else []) @
     [SetScheduler (choicePolicy c)
        (if choicePolicy c = SCHED_FIFO \<or> choicePolicy c = SCHED_RR then prioMax (choicePolicy c) else 0)] @
     [Work, GetTime, WriteElapsed, ExitCall 0]"

record timeval =
  tv_sec :: int
  tv_usec :: int

definition elapsed :: "timeval \<Rightarrow> timeval \<Rightarrow> int \<times> int" where
  "elapsed start fin =
     (let seconds = tv_sec fin - tv_sec start; useconds = tv_usec fin - tv_usec start in
      if useconds < 0 then (seconds - 1, useconds + 1000000) else (seconds, useconds))"

definition padZero :: "nat \<Rightarrow> string \<Rightarrow> string" where
  "padZero w s = replicate (w - length s) CHR ''0'' @ s"

definition elapsedStr :: "timeval \<Rightarrow> timeval \<Rightarrow> string" where
  "elapsedStr start fin =
     (case elapsed start fin of (s, us) \<Rightarrow> showInt s @ ''.'' @ padZero 6 (showInt us))"

subsection \<open>The sequential program\<close>

text \<open>
  A child either fails to set its affinity or works; the parent waits for it before it forks
  the next one. \<open>forks i\<close> is whether the \<open>i\<close>-th fork succeeds, \<open>affine i\<close> whether that child
  may set its affinity. The result is what happened, in order, and the exit code.
\<close>

datatype event = Forked int | Worked int | ChildFailed int | Waited int

definition seqBody :: "(int \<Rightarrow> bool) \<Rightarrow> (int \<Rightarrow> bool) \<Rightarrow> int \<Rightarrow> event list \<Rightarrow> (event list, event list) ctl cres" where
  "seqBody forks affine i es =
     Ret (if forks i
          then Next (es @ [Forked i] @ (if affine i then [Worked i] else [ChildFailed i]) @ [Waited i])
          else Stop es)"

definition seqMain :: "(int \<Rightarrow> bool) \<Rightarrow> (int \<Rightarrow> bool) \<Rightarrow> (int \<times> event list) cres" where
  "seqMain forks affine =
     cbind (cfor (seqBody forks affine) (range0 21) []) (\<lambda>c.
     case c of Next es \<Rightarrow> Ret (0, es) | Stop es \<Rightarrow> Ret (1, es))"

subsection \<open>The array work is a matrix product\<close>

definition dims :: "matrix \<Rightarrow> bool" where
  "dims m \<longleftrightarrow> length m = 100 \<and> (\<forall>r < 100. length (m ! r) = 100)"

text \<open>\<open>r'\<close> is \<open>r\<close> with \<open>f k j\<close> added to every cell.\<close>

definition adds :: "matrix \<Rightarrow> matrix \<Rightarrow> (nat \<Rightarrow> nat \<Rightarrow> 32 word) \<Rightarrow> bool" where
  "adds r r' f \<longleftrightarrow> dims r' \<and> (\<forall>k < 100. \<forall>j < 100. cell r' k j = cell r k j + f k j)"

lemma adds_trans: "adds r r1 f \<Longrightarrow> adds r1 r2 g \<Longrightarrow> adds r r2 (\<lambda>k j. f k j + g k j)"
  by (simp add: adds_def add.assoc)

lemma adds_fold:
  assumes "\<And>x r. x \<in> set xs \<Longrightarrow> dims r \<Longrightarrow> adds r (F x r) (f x)" and "dims r"
  shows "adds r (fold F xs r) (\<lambda>k j. \<Sum>x\<leftarrow>xs. f x k j)"
  using assms
proof (induction xs arbitrary: r)
  case Nil
  then show ?case by (simp add: adds_def)
next
  case (Cons x xs)
  from Cons.prems(1) [of x r] Cons.prems(2) have 1: "adds r (F x r) (f x)" by simp
  then have "dims (F x r)" by (simp add: adds_def)
  with Cons have "adds (F x r) (fold F xs (F x r)) (\<lambda>k j. \<Sum>x\<leftarrow>xs. f x k j)" by simp
  with 1 show ?case by (simp add: adds_trans)
qed

lemma addCell_adds:
  assumes "dims r" and "k < 100" and "j < 100"
  shows "adds r (addCell A B k i j r) (\<lambda>k' j'. if k' = k \<and> j' = j then cell A k i * cell B i j else 0)"
  using assms by (auto simp: adds_def dims_def addCell_def cell_def nth_list_update)

lemma workPass_adds:
  assumes "dims r"
  shows "adds r (workPass A B r) (\<lambda>k j. \<Sum>i<100. cell A k i * cell B i j)"
proof -
  have "adds r (workPass A B r) (\<lambda>k' j'. \<Sum>k\<leftarrow>[0..<100]. \<Sum>i\<leftarrow>[0..<100]. \<Sum>j\<leftarrow>[0..<100].
      if k' = k \<and> j' = j then cell A k i * cell B i j else 0)"
    unfolding workPass_def by (intro adds_fold addCell_adds assms) auto
  moreover have "(\<Sum>k\<leftarrow>[0..<100]. \<Sum>i\<leftarrow>[0..<100]. \<Sum>j\<leftarrow>[0..<100].
      if k' = k \<and> j' = j then cell A k i * cell B i j else 0) = (\<Sum>i<100. cell A k' i * cell B i j')"
    if "k' < 100" "j' < 100" for k' j'
  proof -
    have "(\<Sum>k\<in>{0..<100}. \<Sum>i\<in>{0..<100}. \<Sum>j\<in>{0..<100}.
        if k' = k \<and> j' = j then cell A k i * cell B i j else 0) =
      (\<Sum>k\<in>{0..<100}. if k' = k then (\<Sum>i\<in>{0..<100}. cell A k' i * cell B i j') else 0)"
      using that by (intro sum.cong refl) simp
    then show ?thesis using that by (simp add: interv_sum_list_conv_sum_set_nat lessThan_atLeast0 del: upt_Suc)
  qed
  ultimately show ?thesis by (simp add: adds_def)
qed

lemma passes_adds:
  "dims r \<Longrightarrow> adds r ((workPass A B ^^ n) r) (\<lambda>k j. of_nat n * (\<Sum>i<100. cell A k i * cell B i j))"
proof (induction n)
  case (Suc n)
  then have "dims ((workPass A B ^^ n) r)" by (simp add: adds_def)
  from adds_trans [OF Suc.IH [OF Suc.prems] workPass_adds [OF this]] show ?case
    by (simp add: algebra_simps)
qed (simp add: adds_def)



subsection \<open>Elapsed time and the nice values\<close>

definition micros :: "timeval \<Rightarrow> int" where
  "micros t = tv_sec t * 1000000 + tv_usec t"

definition timeval_ok :: "timeval \<Rightarrow> bool" where
  "timeval_ok t \<longleftrightarrow> 0 \<le> tv_usec t \<and> tv_usec t < 1000000"

text \<open>
  The elapsed time. For two valid times the borrow gives the exact difference, with the
  microseconds in range; printed after the point in six digits they read back as that value.
\<close>

theorem elapsed_exact:
  assumes "timeval_ok a" and "timeval_ok b" and "elapsed a b = (s, us)"
  shows "s * 1000000 + us = micros b - micros a \<and> 0 \<le> us \<and> us < 1000000 \<and>
    length (padZero 6 (showInt us)) = 6 \<and> digitsVal (padZero 6 (showInt us)) = us"
proof -
  have 1: "s * 1000000 + us = micros b - micros a" "0 \<le> us" "us < 1000000"
    using assms by (auto simp: elapsed_def Let_def micros_def timeval_ok_def split: if_splits)
  then have sh: "showInt us = showNat (nat us)" "digitsVal (showNat (nat us)) = us"
    by (simp_all add: showInt_def digitsVal_showNat)
  have z: "digitsVal (replicate n CHR ''0'' @ ds) = digitsVal ds" for n ds
    by (induction n) (simp_all add: digitsVal_def digitVal_def)
  have "length (showNat (nat us)) \<le> 6" using 1 by (intro length_showNat) simp_all
  with 1 sh z show ?thesis by (simp add: padZero_def)
qed

theorem elapsed_exact_witness:
  "(- 1 + 4) * 1000000 + 200100 = micros \<lparr>tv_sec = 9, tv_usec = 100\<rparr> - micros \<lparr>tv_sec = 5, tv_usec = 800000\<rparr> \<and>
   (0::int) \<le> 200100 \<and> (200100::int) < 1000000 \<and>
   length (padZero 6 (showInt 200100)) = 6 \<and> digitsVal (padZero 6 (showInt 200100)) = 200100"
  by (rule elapsed_exact) (simp_all add: timeval_ok_def elapsed_def)



text \<open>
  The second program runs its children strictly one after the other. When every fork
  succeeds, it exits with 0 after 21 rounds, each of which is a fork, the child's work
  (or its failure) and the wait for it, in this order.
\<close>

theorem sequential_children:
  assumes "\<forall>i. 0 \<le> i \<and> i < 21 \<longrightarrow> forks i"
  shows "seqMain forks affine = Ret (0, concat (map (\<lambda>i.
    [Forked (int i), if affine (int i) then Worked (int i) else ChildFailed (int i), Waited (int i)]) [0..<21]))"
proof -
  have "cfor (seqBody forks affine) (map int [0..<k]) [] = Ret (Next (concat (map (\<lambda>i.
      [Forked (int i), if affine (int i) then Worked (int i) else ChildFailed (int i), Waited (int i)]) [0..<k])))"
    if "k \<le> 21" for k
    using that assms by (induction k) (auto simp: cfor_append seqBody_def)
  from this [of 21] show ?thesis by (simp add: seqMain_def range0_def del: upt_rec_numeral upt_Suc)
qed

theorem sequential_children_witness:
  "seqMain (\<lambda>_. True) (\<lambda>i. i \<noteq> 4) = Ret (0, concat (map (\<lambda>i.
    [Forked (int i), if int i \<noteq> 4 then Worked (int i) else ChildFailed (int i), Waited (int i)]) [0..<21]))"
  by (rule sequential_children) simp

end
