(* ===== verification/KTask.thy ===== *)
theory KTask
  imports C_Prelude "HOL-Library.Word"
begin

section \<open>Tasks, policies and priorities of the modified kernel (core.c, sched.h)\<close>

text \<open>
  The part of \<open>struct task_struct\<close> that the scheduler calls of core.c read and write, and
  the functions that compute priorities and load weights from it. The configuration modelled is
  SMP with rt mutexes and without utilization clamps, real-time group scheduling and core
  scheduling (where a function of core scheduling is modelled it is pure). The constants and
  the policy predicates at the top are those of the kernel headers the sources include, with
  the values the scheduler's user interface documents. What core.c calls in files that are not
  in the repository (the scheduling classes, deadline admission, security hooks, capabilities,
  resource limits) is the parameter record \<open>Kern\<close>.
\<close>

unbundle bit_operations_syntax

subsection \<open>Constants of the included headers\<close>

definition SCHED_NORMAL :: int where "SCHED_NORMAL = 0"
definition SCHED_FIFO :: int where "SCHED_FIFO = 1"
definition SCHED_RR :: int where "SCHED_RR = 2"
definition SCHED_BATCH :: int where "SCHED_BATCH = 3"
definition SCHED_IDLE :: int where "SCHED_IDLE = 5"
definition SCHED_DEADLINE :: int where "SCHED_DEADLINE = 6"
definition MAX_RT_PRIO :: int where "MAX_RT_PRIO = 100"
definition MAX_DL_PRIO :: int where "MAX_DL_PRIO = 0"
definition MIN_NICE :: int where "MIN_NICE = -20"
definition MAX_NICE :: int where "MAX_NICE = 19"
definition NICE_WIDTH :: int where "NICE_WIDTH = 40"

lemmas sched_consts = SCHED_NORMAL_def SCHED_FIFO_def SCHED_RR_def SCHED_BATCH_def SCHED_IDLE_def
  SCHED_DEADLINE_def MAX_RT_PRIO_def MAX_DL_PRIO_def MIN_NICE_def MAX_NICE_def NICE_WIDTH_def

definition NICE_TO_PRIO :: "int \<Rightarrow> int" where "NICE_TO_PRIO nice = nice + 120"
definition PRIO_TO_NICE :: "int \<Rightarrow> int" where "PRIO_TO_NICE pr = pr - 120"

definition dl_policy :: "int \<Rightarrow> bool" where "dl_policy pol \<longleftrightarrow> pol = SCHED_DEADLINE"
definition rt_policy :: "int \<Rightarrow> bool" where "rt_policy pol \<longleftrightarrow> pol = SCHED_FIFO \<or> pol = SCHED_RR"
definition fair_policy :: "int \<Rightarrow> bool" where "fair_policy pol \<longleftrightarrow> pol = SCHED_NORMAL \<or> pol = SCHED_BATCH"
definition idle_policy :: "int \<Rightarrow> bool" where "idle_policy pol \<longleftrightarrow> pol = SCHED_IDLE"

definition valid_policy :: "int \<Rightarrow> bool" where
  "valid_policy pol \<longleftrightarrow> idle_policy pol \<or> fair_policy pol \<or> rt_policy pol \<or> dl_policy pol"

definition dl_prio :: "int \<Rightarrow> bool" where "dl_prio pr \<longleftrightarrow> pr < MAX_DL_PRIO"
definition rt_prio :: "int \<Rightarrow> bool" where "rt_prio pr \<longleftrightarrow> pr < MAX_RT_PRIO"

lemmas sched_preds = dl_policy_def rt_policy_def fair_policy_def idle_policy_def valid_policy_def
  dl_prio_def rt_prio_def NICE_TO_PRIO_def PRIO_TO_NICE_def

subsection \<open>The task structure\<close>

datatype sclass = StopClass | DlClass | RtClass | FairClass | IdleClass

record Task =
  pid :: int
  comm :: string
  policy :: int
  prio :: int
  static_prio :: int
  normal_prio_f :: int
  rt_priority :: int
  sched_class :: sclass
  sched_reset_on_fork :: bool
  state :: int
  on_rq :: int
  on_cpu :: int
  flags :: "32 word"
  uid :: int
  euid :: int
  load_weight :: int
  load_inv_weight :: int
  rt_timeout :: int
  rt_time_slice :: int
  rt_on_rq :: int
  se_on_rq :: int
  sum_exec_runtime :: int
  prev_sum_exec_runtime :: int
  exec_start :: int
  nr_migrations :: int
  vruntime :: int
  dl_params :: "int list"
  dl_deadline :: "64 word"
  dl_pi_se :: "int option"
  pi_top_task :: "int option"
  cpus_mask :: "nat set"
  cpu_burst :: "64 word"
  cpu_burst_start :: "64 word"

text \<open>
  \<open>dl_pi_se\<close> is the pid of the task whose deadline entity is used, \<open>None\<close> for its own.
\<close>

record SchedAttr =
  attr_size :: int
  sched_policy :: int
  sched_flags :: "64 word"
  sched_nice :: int
  sched_priority :: int
  sched_dl :: "int list"

record Kern =
  cap_sys_nice :: bool
  cred_euid :: int
  rlimit_nice :: "Task \<Rightarrow> int"
  rlimit_rtprio :: "Task \<Rightarrow> int"
  security_task_setscheduler :: "Task \<Rightarrow> int"
  security_task_getscheduler :: "Task \<Rightarrow> int"
  security_task_setnice :: "Task \<Rightarrow> int \<Rightarrow> int"
  checkparam_dl :: "SchedAttr \<Rightarrow> bool"
  dl_param_changed :: "Task \<Rightarrow> SchedAttr \<Rightarrow> bool"
  sched_dl_overflow :: "Task \<Rightarrow> int \<Rightarrow> SchedAttr \<Rightarrow> bool"
  setparam_dl :: "SchedAttr \<Rightarrow> int list"
  getparam_dl :: "Task \<Rightarrow> SchedAttr \<Rightarrow> SchedAttr"
  dl_bandwidth_enabled :: bool
  rd_span :: "nat set"
  rd_dl_bw :: int
  cfs_prio_less :: "Task \<Rightarrow> Task \<Rightarrow> bool \<Rightarrow> bool"
  dl_entity_preempt :: "Task \<Rightarrow> Task \<Rightarrow> bool"
  has_switched_from :: "sclass \<Rightarrow> bool"
  scale_load :: "int \<Rightarrow> int"
  weight_idleprio :: int
  wmult_idleprio :: int
  rt_mutex_top :: "Task \<Rightarrow> Task option"
  is_stop_task :: "Task \<Rightarrow> bool"
  is_idle_task :: "Task \<Rightarrow> bool"
  task_current :: "Task \<Rightarrow> bool"
  rr_timeslice :: int

subsection \<open>Load weights\<close>

definition sched_prio_to_weight :: "int list" where
  "sched_prio_to_weight =
    [88761, 71755, 56483, 46273, 36291,
     29154, 23254, 18705, 14949, 11916,
      9548,  7620,  6100,  4904,  3906,
      3121,  2501,  1991,  1586,  1277,
      1024,   820,   655,   526,   423,
       335,   272,   215,   172,   137,
       110,    87,    70,    56,    45,
        36,    29,    23,    18,    15]"

definition sched_prio_to_wmult :: "int list" where
  "sched_prio_to_wmult =
    [    48388,     59856,     76040,     92818,    118348,
        147320,    184698,    229616,    287308,    360437,
        449829,    563644,    704093,    875809,   1099582,
       1376151,   1717300,   2157191,   2708050,   3363326,
       4194304,   5237765,   6557202,   8165337,  10153587,
      12820798,  15790321,  19976592,  24970740,  31350126,
      39045157,  49367440,  61356676,  76695844,  95443717,
     119304647, 148102320, 186737708, 238609294, 286331153]"

text \<open>
  For a task of the fair class with \<open>update_load\<close> the class does the reweighting itself, to
  the weight of the same table entry; \<open>Reweight\<close> records that it was asked to.
\<close>

record QFlags =
  qSave :: bool
  qMove :: bool
  qNoclock :: bool
  qHead :: bool
  qReplenish :: bool

datatype kcall =
    Dequeue QFlags
  | Enqueue QFlags
  | PutPrev
  | SetNext
  | Reweight int
  | SwitchedFrom sclass
  | SwitchedTo sclass
  | PrioChanged sclass int
  | AdjustPi
  | BalanceCallbacks

definition set_load_weight :: "Kern \<Rightarrow> bool \<Rightarrow> Task \<Rightarrow> (Task \<times> kcall list) cres" where
  "set_load_weight K update_load p =
     (let pr = static_prio p - MAX_RT_PRIO in
      if idle_policy (policy p) then
        Ret (p\<lparr>load_weight := scale_load K (weight_idleprio K), load_inv_weight := wmult_idleprio K\<rparr>, [])
      else if update_load \<and> sched_class p = FairClass then Ret (p, [Reweight pr])
      else
        cbind (aget sched_prio_to_weight pr) (\<lambda>w.
        cbind (aget sched_prio_to_wmult pr) (\<lambda>m.
          Ret (p\<lparr>load_weight := scale_load K w, load_inv_weight := m\<rparr>, []))))"

subsection \<open>Priorities\<close>

text \<open>Kernel priority for core scheduling; smaller is more important.\<close>

definition task_prio_key :: "Task \<Rightarrow> int" where
  "task_prio_key p =
     (if sched_class p = StopClass then -2
      else if rt_prio (prio p) then prio p
      else if sched_class p = IdleClass then MAX_RT_PRIO + NICE_WIDTH
      else MAX_RT_PRIO + MAX_NICE)"

definition dl_time_before :: "64 word \<Rightarrow> 64 word \<Rightarrow> bool" where
  "dl_time_before a b \<longleftrightarrow> sint (a - b) < 0"

definition prio_less :: "Kern \<Rightarrow> Task \<Rightarrow> Task \<Rightarrow> bool \<Rightarrow> bool" where
  "prio_less K a b in_fi =
     (let pa = task_prio_key a; pb = task_prio_key b in
      if - pa < - pb then True
      else if - pb < - pa then False
      else if pa = -1 then \<not> dl_time_before (dl_deadline a) (dl_deadline b)
      else if pa = MAX_RT_PRIO + MAX_NICE then cfs_prio_less K a b in_fi
      else False)"

definition normal_prio_of :: "int \<Rightarrow> int \<Rightarrow> int \<Rightarrow> int" where
  "normal_prio_of pol rtp nice =
     (if dl_policy pol then MAX_DL_PRIO - 1
      else if rt_policy pol then MAX_RT_PRIO - 1 - rtp
      else NICE_TO_PRIO nice)"

definition normal_prio :: "Task \<Rightarrow> int" where
  "normal_prio p = normal_prio_of (policy p) (rt_priority p) (PRIO_TO_NICE (static_prio p))"

definition effective_prio :: "Task \<Rightarrow> int \<times> Task" where
  "effective_prio p =
     (let p' = p\<lparr>normal_prio_f := normal_prio p\<rparr> in
      if \<not> rt_prio (prio p') then (normal_prio_f p', p') else (prio p', p'))"

definition check_class_changed :: "Kern \<Rightarrow> Task \<Rightarrow> sclass \<Rightarrow> int \<Rightarrow> kcall list" where
  "check_class_changed K p prev_class oldprio =
     (if prev_class \<noteq> sched_class p
      then (if has_switched_from K prev_class then [SwitchedFrom prev_class] else []) @ [SwitchedTo (sched_class p)]
      else if oldprio \<noteq> prio p \<or> dl_prio (prio p) then [PrioChanged (sched_class p) oldprio] else [])"

definition setscheduler_prio :: "int \<Rightarrow> Task \<Rightarrow> Task" where
  "setscheduler_prio pr p =
     p\<lparr>sched_class := (if dl_prio pr then DlClass else if rt_prio pr then RtClass else FairClass),
       prio := pr\<rparr>"

definition rt_effective_prio' :: "Task option \<Rightarrow> int \<Rightarrow> int" where
  "rt_effective_prio' pi_task pr = (case pi_task of None \<Rightarrow> pr | Some t \<Rightarrow> min pr (prio t))"

definition rt_effective_prio :: "Kern \<Rightarrow> Task \<Rightarrow> int \<Rightarrow> int" where
  "rt_effective_prio K p pr = rt_effective_prio' (rt_mutex_top K p) pr"

definition task_nice :: "Task \<Rightarrow> int" where
  "task_nice p = PRIO_TO_NICE (static_prio p)"

definition task_prio :: "Task \<Rightarrow> int" where
  "task_prio p = prio p - MAX_RT_PRIO"

definition task_on_rq_queued :: "Task \<Rightarrow> bool" where
  "task_on_rq_queued p \<longleftrightarrow> on_rq p = 1"

subsection \<open>What makes the priorities of a task consistent\<close>

definition static_ok :: "Task \<Rightarrow> bool" where
  "static_ok p \<longleftrightarrow> 100 \<le> static_prio p \<and> static_prio p \<le> 139"

definition class_of_prio :: "int \<Rightarrow> sclass" where
  "class_of_prio pr = (if dl_prio pr then DlClass else if rt_prio pr then RtClass else FairClass)"

text \<open>
  A consistent task: a known policy, a nice value in range, a real-time priority exactly when
  the policy is real-time, the stored normal priority the one its policy gives, an effective
  priority that is at least as good and in range, and the class that goes with it. Under
  \<open>SCHED_IDLE\<close> the effective priority is only in range.
\<close>

definition prio_ok :: "Task \<Rightarrow> bool" where
  "prio_ok p \<longleftrightarrow> valid_policy (policy p) \<and> static_ok p \<and>
     (if rt_policy (policy p) then 1 \<le> rt_priority p \<and> rt_priority p \<le> 99 else rt_priority p = 0) \<and>
     normal_prio_f p = normal_prio p \<and>
     -1 \<le> prio p \<and> prio p \<le> 139 \<and>
     (\<not> idle_policy (policy p) \<longrightarrow> prio p \<le> normal_prio p) \<and>
     sched_class p = class_of_prio (prio p)"

lemma prio_ok_static: "prio_ok p \<Longrightarrow> static_ok p"
  by (simp add: prio_ok_def)

lemma normal_prio_range:
  assumes "valid_policy (policy p)" and "static_ok p"
    and "if rt_policy (policy p) then 1 \<le> rt_priority p \<and> rt_priority p \<le> 99 else rt_priority p = 0"
  shows "-1 \<le> normal_prio p \<and> normal_prio p \<le> 139 \<and>
    (dl_policy (policy p) \<longleftrightarrow> normal_prio p = -1) \<and>
    (rt_policy (policy p) \<longleftrightarrow> 0 \<le> normal_prio p \<and> normal_prio p \<le> 98) \<and>
    (fair_policy (policy p) \<or> idle_policy (policy p) \<longleftrightarrow> 100 \<le> normal_prio p)"
  using assms by (auto simp: normal_prio_def normal_prio_of_def sched_preds sched_consts static_ok_def)


text \<open>
  The order of core scheduling. Tasks of different kernel priority compare by it, the more
  important one being greater; among real-time tasks of equal priority none is less; but a deadline
  task is less than itself, so the relation is not irreflexive.
\<close>

theorem prio_less_order:
  "(task_prio_key b < task_prio_key a \<longrightarrow> prio_less K a b fi \<and> \<not> prio_less K b a fi) \<and>
   (task_prio_key a = task_prio_key b \<and> 0 \<le> task_prio_key a \<and> task_prio_key a < 100 \<longrightarrow> \<not> prio_less K a b fi) \<and>
   (task_prio_key a = -1 \<longrightarrow> prio_less K a a fi)"
  by (auto simp: prio_less_def Let_def dl_time_before_def MAX_RT_PRIO_def MAX_NICE_def)

subsection \<open>A task and an environment for the witnesses\<close>

definition plainTask :: Task where
  "plainTask = \<lparr>pid = 1000, comm = ''testp'', policy = 0, prio = 120, static_prio = 120, normal_prio_f = 120,
     rt_priority = 0, sched_class = FairClass, sched_reset_on_fork = False, state = 0, on_rq = 1, on_cpu = 1,
     flags = 0, uid = 500, euid = 500, load_weight = 1024, load_inv_weight = 4194304, rt_timeout = 0,
     rt_time_slice = 0, rt_on_rq = 0, se_on_rq = 1, sum_exec_runtime = 0, prev_sum_exec_runtime = 0,
     exec_start = 0, nr_migrations = 0, vruntime = 0, dl_params = [], dl_deadline = 0, dl_pi_se = None,
     pi_top_task = None, cpus_mask = {0}, cpu_burst = 0, cpu_burst_start = 0\<rparr>"

definition plainKern :: Kern where
  "plainKern = \<lparr>cap_sys_nice = False, cred_euid = 500, rlimit_nice = (\<lambda>_. 0), rlimit_rtprio = (\<lambda>_. 50),
     security_task_setscheduler = (\<lambda>_. 0), security_task_getscheduler = (\<lambda>_. 0),
     security_task_setnice = (\<lambda>_ _. 0), checkparam_dl = (\<lambda>_. True), dl_param_changed = (\<lambda>_ _. False),
     sched_dl_overflow = (\<lambda>_ _ _. False), setparam_dl = sched_dl, getparam_dl = (\<lambda>p a. a\<lparr>sched_dl := dl_params p\<rparr>),
     dl_bandwidth_enabled = True, rd_span = {0, 1}, rd_dl_bw = 1, cfs_prio_less = (\<lambda>a b _. vruntime b < vruntime a),
     dl_entity_preempt = (\<lambda>a b. dl_time_before (dl_deadline a) (dl_deadline b)),
     has_switched_from = (\<lambda>_. True), scale_load = (\<lambda>w. w * 1024), weight_idleprio = 3, wmult_idleprio = 1431655765,
     rt_mutex_top = (\<lambda>_. None), is_stop_task = (\<lambda>_. False), is_idle_task = (\<lambda>_. False),
     task_current = (\<lambda>p. on_cpu p = 1), rr_timeslice = 25\<rparr>"

lemma plain_ok: "prio_ok plainTask"
  by (simp add: prio_ok_def plainTask_def static_ok_def normal_prio_def normal_prio_of_def class_of_prio_def
      sched_preds sched_consts)

theorem prio_less_order_witness:
  "prio_less plainKern plainTask (plainTask\<lparr>prio := 10, sched_class := RtClass\<rparr>) False \<and>
   \<not> prio_less plainKern (plainTask\<lparr>prio := 10, sched_class := RtClass\<rparr>) plainTask False"
  using prio_less_order [of "plainTask\<lparr>prio := 10, sched_class := RtClass\<rparr>" plainTask plainKern False]
  by (simp add: task_prio_key_def plainTask_def rt_prio_def sched_consts)

end
