(* ===== verification/KSetsched.thy ===== *)
theory KSetsched
  imports KTask
begin

section \<open>Changing policy and priority (core.c, __sched_setscheduler)\<close>

text \<open>
  The check phase, the phase under the run queue lock, and the loop that starts over when the
  policy changed in between. What other processors do to the task between the two phases is an
  explicit list of changes, one per round; with an empty list nobody interferes. Besides the
  return value and the task the model yields the calls made to the scheduling classes, in order.
\<close>

subsection \<open>Flags\<close>

definition SCHED_FLAG_RESET_ON_FORK :: "64 word" where "SCHED_FLAG_RESET_ON_FORK = 0x01"
definition SCHED_FLAG_KEEP_POLICY :: "64 word" where "SCHED_FLAG_KEEP_POLICY = 0x08"
definition SCHED_FLAG_KEEP_PARAMS :: "64 word" where "SCHED_FLAG_KEEP_PARAMS = 0x10"
definition SCHED_FLAG_UTIL_CLAMP :: "64 word" where "SCHED_FLAG_UTIL_CLAMP = 0x60"
definition SCHED_FLAG_ALL :: "64 word" where "SCHED_FLAG_ALL = 0x7F"
definition SCHED_FLAG_SUGOV :: "64 word" where "SCHED_FLAG_SUGOV = 0x10000000"
definition SCHED_RESET_ON_FORK :: int where "SCHED_RESET_ON_FORK = 0x40000000"
definition SETPARAM_POLICY :: int where "SETPARAM_POLICY = -1"

definition has_flag :: "SchedAttr \<Rightarrow> 64 word \<Rightarrow> bool" where
  "has_flag attr f \<longleftrightarrow> sched_flags attr AND f \<noteq> 0"

subsection \<open>Parameters and permissions\<close>

definition setscheduler_params :: "Kern \<Rightarrow> SchedAttr \<Rightarrow> Task \<Rightarrow> (Task \<times> kcall list) cres" where
  "setscheduler_params K attr p =
     (let pol = (if sched_policy attr = SETPARAM_POLICY then policy p else sched_policy attr);
          p1 = p\<lparr>policy := pol\<rparr>;
          p2 = (if dl_policy pol then p1\<lparr>dl_params := setparam_dl K attr\<rparr>
                else if fair_policy pol then p1\<lparr>static_prio := NICE_TO_PRIO (sched_nice attr)\<rparr>
                else p1);
          p3 = p2\<lparr>rt_priority := sched_priority attr\<rparr>;
          p4 = p3\<lparr>normal_prio_f := normal_prio p3\<rparr>
      in set_load_weight K True p4)"

definition check_same_owner :: "Kern \<Rightarrow> Task \<Rightarrow> bool" where
  "check_same_owner K p \<longleftrightarrow> cred_euid K = euid p \<or> cred_euid K = uid p"

definition nice_to_rlimit :: "int \<Rightarrow> int" where
  "nice_to_rlimit nice = MAX_NICE - nice + 1"

definition can_nice :: "Kern \<Rightarrow> Task \<Rightarrow> int \<Rightarrow> bool" where
  "can_nice K p nice \<longleftrightarrow> nice_to_rlimit nice \<le> rlimit_nice K p \<or> cap_sys_nice K"

text \<open>What a caller without \<open>CAP_SYS_NICE\<close> may do.\<close>

definition unprivileged_ok :: "Kern \<Rightarrow> Task \<Rightarrow> SchedAttr \<Rightarrow> int \<Rightarrow> bool \<Rightarrow> bool" where
  "unprivileged_ok K p attr pol reset =
     (if fair_policy pol \<and> sched_nice attr < task_nice p \<and> \<not> can_nice K p (sched_nice attr) then False
      else if rt_policy pol \<and> pol \<noteq> policy p \<and> rlimit_rtprio K p = 0 then False
      else if rt_policy pol \<and> sched_priority attr > rt_priority p \<and> sched_priority attr > rlimit_rtprio K p then False
      else if dl_policy pol then False
      else if idle_policy (policy p) \<and> \<not> idle_policy pol \<and> \<not> can_nice K p (task_nice p) then False
      else if \<not> check_same_owner K p then False
      else if sched_reset_on_fork p \<and> \<not> reset then False
      else True)"

subsection \<open>The check phase\<close>

text \<open>
  An error, or the policy to set, the policy that must still be there under the lock (\<open>-1\<close>
  for none) and the reset-on-fork flag.
\<close>

definition setsched_check ::
    "Kern \<Rightarrow> Task \<Rightarrow> SchedAttr \<Rightarrow> bool \<Rightarrow> int \<Rightarrow> int + (int \<times> int \<times> bool)" where
  "setsched_check K p attr user pol0 =
     (let pol = (if pol0 < 0 then policy p else pol0);
          oldpolicy = (if pol0 < 0 then policy p else -1);
          reset = (if pol0 < 0 then sched_reset_on_fork p else has_flag attr SCHED_FLAG_RESET_ON_FORK)
      in
      if \<not> pol0 < 0 \<and> \<not> valid_policy pol then Inl (- EINVAL)
      else if sched_flags attr AND NOT (SCHED_FLAG_ALL OR SCHED_FLAG_SUGOV) \<noteq> 0 then Inl (- EINVAL)
      else if sched_priority attr > MAX_RT_PRIO - 1 then Inl (- EINVAL)
      else if dl_policy pol \<and> \<not> checkparam_dl K attr \<or> rt_policy pol \<noteq> (sched_priority attr \<noteq> 0)
        then Inl (- EINVAL)
      else if user \<and> \<not> cap_sys_nice K \<and> \<not> unprivileged_ok K p attr pol reset then Inl (- EPERM)
      else if user \<and> has_flag attr SCHED_FLAG_SUGOV then Inl (- EINVAL)
      else if user \<and> security_task_setscheduler K p \<noteq> 0 then Inl (security_task_setscheduler K p)
      else if has_flag attr SCHED_FLAG_UTIL_CLAMP then Inl (- EOPNOTSUPP)
      else Inr (pol, oldpolicy, reset))"

subsection \<open>Under the run queue lock\<close>

definition setsched_change ::
    "Kern \<Rightarrow> Task \<Rightarrow> SchedAttr \<Rightarrow> bool \<Rightarrow> int \<Rightarrow> bool \<Rightarrow> (int \<times> Task \<times> kcall list) cres" where
  "setsched_change K p attr pi pol reset =
     (let p1 = p\<lparr>sched_reset_on_fork := reset\<rparr>;
          oldprio = prio p1;
          newprio0 = normal_prio_of pol (sched_priority attr) (sched_nice attr);
          newprio = (if pi then rt_effective_prio K p1 newprio0 else newprio0);
          flags0 = \<lparr>qSave = True, qMove = \<not> (pi \<and> newprio = oldprio), qNoclock = True, qHead = False, qReplenish = False\<rparr>;
          queued = task_on_rq_queued p1;
          running = task_current K p1;
          before = (if queued then [Dequeue flags0] else []) @ (if running then [PutPrev] else []);
          prev_class = sched_class p1
      in
      cbind (if has_flag attr SCHED_FLAG_KEEP_PARAMS then Ret (p1, [])
             else cbind (setscheduler_params K attr p1) (\<lambda>(p2, calls). Ret (setscheduler_prio newprio p2, calls)))
        (\<lambda>(p3, calls).
          Ret (0, p3, before @ calls @
            (if queued then [Enqueue (if oldprio < prio p3 then flags0\<lparr>qHead := True\<rparr> else flags0)] else []) @
            (if running then [SetNext] else []) @
            check_class_changed K p3 prev_class oldprio @
            (if pi then [AdjustPi] else []) @ [BalanceCallbacks])))"

text \<open>\<open>None\<close> when the policy is no longer the one the check was made for.\<close>

definition setsched_locked ::
    "Kern \<Rightarrow> Task \<Rightarrow> SchedAttr \<Rightarrow> bool \<Rightarrow> bool \<Rightarrow> int \<Rightarrow> int \<Rightarrow> bool \<Rightarrow>
     (int \<times> Task \<times> kcall list) cres option" where
  "setsched_locked K p attr user pi pol oldpolicy reset =
     (if is_stop_task K p then Some (Ret (- EINVAL, p, []))
      else if pol = policy p \<and>
        \<not> (fair_policy pol \<and> sched_nice attr \<noteq> task_nice p) \<and>
        \<not> (rt_policy pol \<and> sched_priority attr \<noteq> rt_priority p) \<and>
        \<not> (dl_policy pol \<and> dl_param_changed K p attr) \<and>
        \<not> has_flag attr SCHED_FLAG_UTIL_CLAMP
        then Some (Ret (0, p\<lparr>sched_reset_on_fork := reset\<rparr>, []))
      else if user \<and> dl_bandwidth_enabled K \<and> dl_policy pol \<and> \<not> has_flag attr SCHED_FLAG_SUGOV \<and>
        (\<not> rd_span K \<subseteq> cpus_mask p \<or> rd_dl_bw K = 0) then Some (Ret (- EPERM, p, []))
      else if oldpolicy \<noteq> -1 \<and> oldpolicy \<noteq> policy p then None
      else if (dl_policy pol \<or> dl_prio (prio p)) \<and> sched_dl_overflow K p pol attr
        then Some (Ret (- EBUSY, p, []))
      else Some (setsched_change K p attr pi pol reset))"

fun setsched_loop ::
    "Kern \<Rightarrow> (Task \<Rightarrow> Task) list \<Rightarrow> Task \<Rightarrow> SchedAttr \<Rightarrow> bool \<Rightarrow> bool \<Rightarrow> int \<Rightarrow>
     (int \<times> Task \<times> kcall list) cres" where
  "setsched_loop K [] p attr user pi pol =
     (case setsched_check K p attr user pol of
        Inl e \<Rightarrow> Ret (e, p, [])
      | Inr (pol', oldpolicy, reset) \<Rightarrow>
          (case setsched_locked K p attr user pi pol' oldpolicy reset of
             None \<Rightarrow> Diverge
           | Some r \<Rightarrow> r))"
| "setsched_loop K (f # fs) p attr user pi pol =
     (case setsched_check K p attr user pol of
        Inl e \<Rightarrow> Ret (e, p, [])
      | Inr (pol', oldpolicy, reset) \<Rightarrow>
          (case setsched_locked K (f p) attr user pi pol' oldpolicy reset of
             None \<Rightarrow> setsched_loop K fs (f p) attr user pi (-1)
           | Some r \<Rightarrow> r))"

definition sched_setscheduler_core ::
    "Kern \<Rightarrow> (Task \<Rightarrow> Task) list \<Rightarrow> Task \<Rightarrow> SchedAttr \<Rightarrow> bool \<Rightarrow> bool \<Rightarrow> (int \<times> Task \<times> kcall list) cres" where
  "sched_setscheduler_core K interf p attr user pi =
     setsched_loop K interf p attr user pi (sched_policy attr)"

subsection \<open>The parts keep a task consistent\<close>

lemma table_lengths: "length sched_prio_to_weight = 40" "length sched_prio_to_wmult = 40"
  by (simp_all add: sched_prio_to_weight_def sched_prio_to_wmult_def)

lemma set_load_weight_ok:
  assumes "static_ok p"
  shows "\<exists>w m c. set_load_weight K b p = Ret (p\<lparr>load_weight := w, load_inv_weight := m\<rparr>, c) \<and>
    (\<forall>x \<in> set c. \<exists>n. x = Reweight n)"
proof -
  have i: "0 \<le> static_prio p - 100" "static_prio p - 100 < int 40" using assms by (auto simp: static_ok_def)
  have a: "aget sched_prio_to_weight (static_prio p - 100) = Ret (sched_prio_to_weight ! nat (static_prio p - 100))"
    "aget sched_prio_to_wmult (static_prio p - 100) = Ret (sched_prio_to_wmult ! nat (static_prio p - 100))"
    using i by (simp_all add: aget_def table_lengths)
  show ?thesis
  proof (cases "idle_policy (policy p)")
    case True
    then have "set_load_weight K b p =
        Ret (p\<lparr>load_weight := scale_load K (weight_idleprio K), load_inv_weight := wmult_idleprio K\<rparr>, [])"
      by (simp add: set_load_weight_def Let_def)
    then show ?thesis by (intro exI conjI) (assumption, simp)
  next
    case ni: False
    show ?thesis
    proof (cases "b \<and> sched_class p = FairClass")
      case True
      with ni have "set_load_weight K b p = Ret (p\<lparr>load_weight := load_weight p, load_inv_weight := load_inv_weight p\<rparr>,
          [Reweight (static_prio p - MAX_RT_PRIO)])"
        by (simp add: set_load_weight_def Let_def)
      then show ?thesis by (intro exI conjI) (assumption, simp)
    next
      case False
      with ni a have "set_load_weight K b p = Ret (p\<lparr>load_weight := scale_load K (sched_prio_to_weight ! nat (static_prio p - 100)),
          load_inv_weight := sched_prio_to_wmult ! nat (static_prio p - 100)\<rparr>, [])"
        by (simp only: set_load_weight_def Let_def MAX_RT_PRIO_def if_False simp_thms cbind.simps)
      then show ?thesis by (intro exI conjI) (assumption, simp)
    qed
  qed
qed

lemma normal_prio_frame [simp]:
  "normal_prio (p\<lparr>load_weight := w\<rparr>) = normal_prio p"
  "normal_prio (p\<lparr>load_inv_weight := w\<rparr>) = normal_prio p"
  "normal_prio (p\<lparr>normal_prio_f := n\<rparr>) = normal_prio p"
  "normal_prio (p\<lparr>sched_reset_on_fork := r\<rparr>) = normal_prio p"
  "normal_prio (p\<lparr>dl_params := d\<rparr>) = normal_prio p"
  "normal_prio (p\<lparr>prio := n\<rparr>) = normal_prio p"
  "normal_prio (p\<lparr>sched_class := cl\<rparr>) = normal_prio p"
  by (simp_all add: normal_prio_def)

text \<open>A request that can be carried out: what the check phase has established.\<close>

definition request_ok :: "SchedAttr \<Rightarrow> int \<Rightarrow> bool" where
  "request_ok attr pol \<longleftrightarrow> valid_policy pol \<and> -20 \<le> sched_nice attr \<and> sched_nice attr \<le> 19 \<and>
     0 \<le> sched_priority attr \<and> sched_priority attr \<le> 99 \<and> (rt_policy pol \<longleftrightarrow> sched_priority attr \<noteq> 0)"

definition wanted_policy :: "SchedAttr \<Rightarrow> Task \<Rightarrow> int" where
  "wanted_policy attr p = (if sched_policy attr = SETPARAM_POLICY then policy p else sched_policy attr)"

definition pi_ok :: "Kern \<Rightarrow> bool" where
  "pi_ok K \<longleftrightarrow> (\<forall>p t. rt_mutex_top K p = Some t \<longrightarrow> -1 \<le> prio t)"

text \<open>The task after the parameters have been stored.\<close>

definition with_params :: "Kern \<Rightarrow> SchedAttr \<Rightarrow> Task \<Rightarrow> Task" where
  "with_params K attr p =
     (let pol = wanted_policy attr p;
          p1 = p\<lparr>policy := pol\<rparr>;
          p2 = (if dl_policy pol then p1\<lparr>dl_params := setparam_dl K attr\<rparr>
                else if fair_policy pol then p1\<lparr>static_prio := NICE_TO_PRIO (sched_nice attr)\<rparr> else p1);
          p3 = p2\<lparr>rt_priority := sched_priority attr\<rparr>
      in p3\<lparr>normal_prio_f := normal_prio p3\<rparr>)"

lemma params_eq: "setscheduler_params K attr p = set_load_weight K True (with_params K attr p)"
  by (simp add: setscheduler_params_def with_params_def wanted_policy_def Let_def)

lemma with_params_fields:
  assumes "request_ok attr (wanted_policy attr p)" and "static_ok p"
  shows "static_ok (with_params K attr p)"
    and "policy (with_params K attr p) = wanted_policy attr p"
    and "rt_priority (with_params K attr p) = sched_priority attr"
    and "normal_prio_f (with_params K attr p) = normal_prio (with_params K attr p)"
    and "\<not> idle_policy (wanted_policy attr p) \<Longrightarrow> normal_prio (with_params K attr p) =
      normal_prio_of (wanted_policy attr p) (sched_priority attr) (sched_nice attr)"
    and "fair_policy (wanted_policy attr p) \<Longrightarrow>
      static_prio (with_params K attr p) = NICE_TO_PRIO (sched_nice attr)"
  using assms
  by (auto simp: with_params_def Let_def request_ok_def static_ok_def normal_prio_def normal_prio_of_def
      sched_preds sched_consts)

lemma effective_range:
  assumes "request_ok attr pol" and "pi_ok K"
  shows "-1 \<le> normal_prio_of pol (sched_priority attr) (sched_nice attr)"
    and "normal_prio_of pol (sched_priority attr) (sched_nice attr) \<le> 139"
    and "-1 \<le> n \<Longrightarrow> -1 \<le> rt_effective_prio K p n" and "rt_effective_prio K p n \<le> n"
  using assms
  by (auto simp: request_ok_def normal_prio_of_def sched_preds sched_consts pi_ok_def rt_effective_prio_def
      rt_effective_prio'_def split: option.splits)

lemma change_params:
  assumes "request_ok attr (wanted_policy attr p)" and "static_ok p" and "pi_ok K"
    and "\<not> has_flag attr SCHED_FLAG_KEEP_PARAMS"
  shows "\<exists>p' c. setsched_change K p attr pi (wanted_policy attr p) reset = Ret (0, p', c) \<and> prio_ok p' \<and>
    policy p' = wanted_policy attr p \<and> rt_priority p' = sched_priority attr \<and>
    sched_reset_on_fork p' = reset \<and>
    (fair_policy (policy p') \<longrightarrow> task_nice p' = sched_nice attr) \<and>
    (\<not> pi \<or> rt_mutex_top K (p\<lparr>sched_reset_on_fork := reset\<rparr>) = None \<longrightarrow>
      prio p' = normal_prio_of (policy p') (rt_priority p') (sched_nice attr))"
proof -
  let ?p1 = "p\<lparr>sched_reset_on_fork := reset\<rparr>" and ?pol = "wanted_policy attr p"
  have w: "wanted_policy attr ?p1 = ?pol" and s: "static_ok ?p1" and r: "request_ok attr (wanted_policy attr ?p1)"
    using assms(1,2) by (auto simp: wanted_policy_def static_ok_def)
  let ?q = "with_params K attr ?p1"
  note F = with_params_fields [OF r s, of K, unfolded w]
  obtain wt m c where lw: "set_load_weight K True ?q = Ret (?q\<lparr>load_weight := wt, load_inv_weight := m\<rparr>, c)"
    using set_load_weight_ok [OF F(1)] by blast
  let ?n0 = "normal_prio_of ?pol (sched_priority attr) (sched_nice attr)"
  define n where "n = (if pi then rt_effective_prio K ?p1 ?n0 else ?n0)"
  have n: "-1 \<le> n" "n \<le> ?n0" using effective_range [OF assms(1,3)] unfolding n_def by auto
  with effective_range(2) [OF assms(1,3)] have n139: "n \<le> 139" by linarith
  let ?p' = "setscheduler_prio n (?q\<lparr>load_weight := wt, load_inv_weight := m\<rparr>)"
  have "\<exists>c. setsched_change K p attr pi ?pol reset = Ret (0, ?p', c)"
    using assms(4) lw unfolding setsched_change_def Let_def n_def by (simp add: params_eq)
  moreover have "prio_ok ?p'"
    using n n139 F assms(1) by (auto simp: prio_ok_def setscheduler_prio_def class_of_prio_def request_ok_def static_ok_def)
  moreover have "sched_reset_on_fork ?p' = reset" by (simp add: setscheduler_prio_def with_params_def Let_def)
  moreover have "\<not> pi \<or> rt_mutex_top K ?p1 = None \<longrightarrow> n = ?n0"
    by (auto simp: n_def rt_effective_prio_def rt_effective_prio'_def)
  ultimately show ?thesis
    using F by (auto simp: setscheduler_prio_def task_nice_def sched_preds)
qed

lemma change_keep:
  assumes "has_flag attr SCHED_FLAG_KEEP_PARAMS"
  shows "\<exists>c. setsched_change K p attr pi pol reset = Ret (0, p\<lparr>sched_reset_on_fork := reset\<rparr>, c)"
  using assms by (simp add: setsched_change_def Let_def)

subsection \<open>The two phases\<close>

lemma check_Inr:
  assumes "setsched_check K p attr user pol0 = Inr (pol, old, reset)"
  shows "pol = (if pol0 < 0 then policy p else pol0)" and "old = (if pol0 < 0 then policy p else -1)"
    and "\<not> pol0 < 0 \<Longrightarrow> valid_policy pol" and "sched_priority attr \<le> 99"
    and "rt_policy pol \<longleftrightarrow> sched_priority attr \<noteq> 0"
    and "\<not> has_flag attr SCHED_FLAG_UTIL_CLAMP"
    and "reset = (if pol0 < 0 then sched_reset_on_fork p else has_flag attr SCHED_FLAG_RESET_ON_FORK)"
    and "user \<Longrightarrow> \<not> cap_sys_nice K \<Longrightarrow> unprivileged_ok K p attr pol reset"
  using assms by (auto simp: setsched_check_def Let_def MAX_RT_PRIO_def split: if_splits)

lemma check_Inl: "setsched_check K p attr user pol0 = Inl e \<Longrightarrow> e \<noteq> 0"
  by (auto simp: setsched_check_def Let_def errnos split: if_splits)

definition attr_ok :: "SchedAttr \<Rightarrow> bool" where
  "attr_ok attr \<longleftrightarrow> -20 \<le> sched_nice attr \<and> sched_nice attr \<le> 19 \<and> 0 \<le> sched_priority attr \<and>
     -1 \<le> sched_policy attr"

lemma check_request:
  assumes "setsched_check K p attr user (sched_policy attr) = Inr (pol, old, reset)" and "prio_ok p" and "attr_ok attr"
  shows "request_ok attr pol"
    and "(sched_policy attr \<noteq> -1 \<and> pol = sched_policy attr \<and> old = -1) \<or> (sched_policy attr = -1 \<and> old = pol \<and> old \<noteq> -1)"
proof -
  have v: "valid_policy (policy p)" using assms(2) by (simp add: prio_ok_def)
  then have nn: "policy p \<noteq> -1" by (auto simp: sched_preds sched_consts)
  show "request_ok attr pol"
    using check_Inr [OF assms(1)] v assms(3) by (auto simp: request_ok_def attr_ok_def split: if_splits)
  show "(sched_policy attr \<noteq> -1 \<and> pol = sched_policy attr \<and> old = -1) \<or> (sched_policy attr = -1 \<and> old = pol \<and> old \<noteq> -1)"
    using check_Inr(1,2) [OF assms(1)] nn assms(3) by (auto simp: attr_ok_def split: if_splits)
qed

lemma prio_ok_reset [simp]: "prio_ok (p\<lparr>sched_reset_on_fork := r\<rparr>) = prio_ok p"
  by (simp add: prio_ok_def static_ok_def)

lemma locked_result:
  assumes "request_ok attr pol" and "prio_ok q" and "pi_ok K"
    and "(sched_policy attr \<noteq> -1 \<and> pol = sched_policy attr \<and> old = -1) \<or> (sched_policy attr = -1 \<and> old = pol \<and> old \<noteq> -1)"
  shows "setsched_locked K q attr user pi pol old reset = None \<and> old \<noteq> -1 \<and> old \<noteq> policy q \<or>
    (\<exists>r q' c. setsched_locked K q attr user pi pol old reset = Some (Ret (r, q', c)) \<and> prio_ok q' \<and>
      (r \<noteq> 0 \<longrightarrow> q' = q \<and> c = []))"
proof (cases "old \<noteq> -1 \<and> old \<noteq> policy q")
  case True
  then show ?thesis using assms(2) by (auto simp: setsched_locked_def)
next
  case False
  then have pol: "pol = wanted_policy attr q" using assms(4) by (auto simp: wanted_policy_def SETPARAM_POLICY_def)
  obtain q' c where ch: "setsched_change K q attr pi pol reset = Ret (0, q', c)" "prio_ok q'"
  proof (cases "has_flag attr SCHED_FLAG_KEEP_PARAMS")
    case True
    then obtain c where "setsched_change K q attr pi pol reset = Ret (0, q\<lparr>sched_reset_on_fork := reset\<rparr>, c)"
      using change_keep by blast
    then show thesis using that assms(2) by simp
  next
    case False
    then show thesis using that change_params [OF assms(1) [unfolded pol] prio_ok_static [OF assms(2)] assms(3) False, of pi reset] pol by blast
  qed
  then show ?thesis using False assms(2) by (auto simp: setsched_locked_def)
qed

subsection \<open>The whole call\<close>

lemma loop_result:
  assumes "prio_ok p" and "\<forall>f \<in> set interf. \<forall>q. prio_ok q \<longrightarrow> prio_ok (f q)" and "pi_ok K" and "attr_ok attr"
  shows "\<exists>r p' c. setsched_loop K interf p attr user pi (sched_policy attr) = Ret (r, p', c) \<and> prio_ok p'"
  using assms(1,2)
proof (induction interf arbitrary: p)
  case Nil
  show ?case
  proof (cases "setsched_check K p attr user (sched_policy attr)")
    case (Inr x)
    obtain pol old reset where x: "x = (pol, old, reset)" by (cases x) auto
    note c = Inr [unfolded x]
    have "\<not> (old \<noteq> -1 \<and> old \<noteq> policy p)" using check_Inr(2) [OF c] by (auto split: if_splits)
    with locked_result [OF check_request(1) [OF c Nil.prems(1) assms(4)] Nil.prems(1) assms(3)
        check_request(2) [OF c Nil.prems(1) assms(4)], of user pi reset] c
    show ?thesis by auto
  qed (use Nil in auto)
next
  case (Cons f fs)
  show ?case
  proof (cases "setsched_check K p attr user (sched_policy attr)")
    case (Inr x)
    obtain pol old reset where x: "x = (pol, old, reset)" by (cases x) auto
    note c = Inr [unfolded x]
    have fp: "prio_ok (f p)" using Cons.prems by simp
    note L = locked_result [OF check_request(1) [OF c Cons.prems(1) assms(4)] fp assms(3)
        check_request(2) [OF c Cons.prems(1) assms(4)], of user pi reset]
    show ?thesis
    proof (cases "setsched_locked K (f p) attr user pi pol old reset")
      case None
      with L have "sched_policy attr = -1" using check_request(2) [OF c Cons.prems(1) assms(4)] by auto
      with None c Cons.IH [OF fp] Cons.prems(2) show ?thesis by auto
    next
      case (Some y)
      with L c show ?thesis by auto
    qed
  qed (use Cons.prems in auto)
qed

text \<open>
  C7: \<open>__sched_setscheduler\<close> always returns, whatever other processors do to the task between
  its two phases, and keeps every task consistent: the stored normal priority, the effective
  priority, the real-time priority, the nice value and the scheduling class agree afterwards.
\<close>

theorem setscheduler_keeps_consistent:
  assumes "prio_ok p" and "\<forall>f \<in> set interf. \<forall>q. prio_ok q \<longrightarrow> prio_ok (f q)" and "pi_ok K" and "attr_ok attr"
  shows "\<exists>r p' c. sched_setscheduler_core K interf p attr user pi = Ret (r, p', c) \<and> prio_ok p'"
  using loop_result [OF assms] by (simp add: sched_setscheduler_core_def)

text \<open>
  C8: a failed call changes nothing. Without interference, a non-zero return value means the
  task is as before and no scheduling class was called.
\<close>

theorem setscheduler_error_unchanged:
  assumes "prio_ok p" and "pi_ok K" and "attr_ok attr"
    and "sched_setscheduler_core K [] p attr user pi = Ret (r, p', c)" and "r \<noteq> 0"
  shows "p' = p \<and> c = []"
proof (cases "setsched_check K p attr user (sched_policy attr)")
  case (Inl e)
  then show ?thesis using assms(4) by (simp add: sched_setscheduler_core_def)
next
  case (Inr x)
  obtain pol old reset where x: "x = (pol, old, reset)" by (cases x) auto
  note c = Inr [unfolded x]
  have "\<not> (old \<noteq> -1 \<and> old \<noteq> policy p)" using check_Inr(2) [OF c] by (auto split: if_splits)
  with locked_result [OF check_request(1) [OF c assms(1,3)] assms(1,2) check_request(2) [OF c assms(1,3)], of user pi reset]
    c assms(4,5)
  show ?thesis by (auto simp: sched_setscheduler_core_def)
qed

text \<open>One call without interference, split by its phases.\<close>

lemma core_cases:
  assumes "prio_ok p" and "attr_ok attr" and "sched_setscheduler_core K [] p attr user pi = Ret (0, p', c)"
  obtains pol old reset where "setsched_check K p attr user (sched_policy attr) = Inr (pol, old, reset)"
    and "pol = wanted_policy attr p" and "request_ok attr pol"
    and "pol = policy p \<and> (fair_policy pol \<longrightarrow> sched_nice attr = task_nice p) \<and>
      (rt_policy pol \<longrightarrow> sched_priority attr = rt_priority p) \<and> p' = p\<lparr>sched_reset_on_fork := reset\<rparr> \<and> c = [] \<or>
      setsched_change K p attr pi pol reset = Ret (0, p', c)"
proof (cases "setsched_check K p attr user (sched_policy attr)")
  case (Inl e)
  then show thesis using assms(3) check_Inl [OF Inl] by (simp add: sched_setscheduler_core_def)
next
  case (Inr x)
  obtain pol old reset where x: "x = (pol, old, reset)" by (cases x) auto
  note ck = Inr [unfolded x]
  have old: "\<not> (old \<noteq> -1 \<and> old \<noteq> policy p)" using check_Inr(2) [OF ck] by (auto split: if_splits)
  then have pol: "pol = wanted_policy attr p"
    using check_request(2) [OF ck assms(1,2)] by (auto simp: wanted_policy_def SETPARAM_POLICY_def)
  have "setsched_locked K p attr user pi pol old reset = Some (Ret (0, p', c))"
    using assms(3) ck by (auto simp: sched_setscheduler_core_def split: option.splits)
  then have "pol = policy p \<and> (fair_policy pol \<longrightarrow> sched_nice attr = task_nice p) \<and>
      (rt_policy pol \<longrightarrow> sched_priority attr = rt_priority p) \<and> p' = p\<lparr>sched_reset_on_fork := reset\<rparr> \<and> c = [] \<or>
      setsched_change K p attr pi pol reset = Ret (0, p', c)"
    by (auto simp: setsched_locked_def errnos split: if_splits)
  with that [OF ck pol check_request(1) [OF ck assms(1,2)]] show thesis .
qed

lemma setscheduler_result:
  assumes "prio_ok p" and "pi_ok K" and "attr_ok attr"
    and "sched_setscheduler_core K [] p attr user pi = Ret (0, p', c)"
    and "\<not> has_flag attr SCHED_FLAG_KEEP_PARAMS"
  shows "policy p' = wanted_policy attr p \<and> rt_priority p' = sched_priority attr \<and>
    (\<not> rt_policy (policy p') \<longrightarrow> sched_priority attr = 0) \<and>
    (fair_policy (policy p') \<longrightarrow> task_nice p' = sched_nice attr) \<and>
    sched_reset_on_fork p' = (if sched_policy attr < 0 then sched_reset_on_fork p
      else has_flag attr SCHED_FLAG_RESET_ON_FORK)"
proof -
  from assms(1,3,4) obtain pol old reset where
    ck: "setsched_check K p attr user (sched_policy attr) = Inr (pol, old, reset)"
    and pol: "pol = wanted_policy attr p" and rq: "request_ok attr pol"
    and res: "pol = policy p \<and> (fair_policy pol \<longrightarrow> sched_nice attr = task_nice p) \<and>
      (rt_policy pol \<longrightarrow> sched_priority attr = rt_priority p) \<and> p' = p\<lparr>sched_reset_on_fork := reset\<rparr> \<and> c = [] \<or>
      setsched_change K p attr pi pol reset = Ret (0, p', c)"
    by (rule core_cases)
  have reset: "reset = (if sched_policy attr < 0 then sched_reset_on_fork p
      else has_flag attr SCHED_FLAG_RESET_ON_FORK)" by (rule check_Inr(7) [OF ck])
  have rt: "\<not> rt_policy (policy p) \<Longrightarrow> rt_priority p = 0" using assms(1) by (simp add: prio_ok_def)
  from res show ?thesis
  proof
    assume "setsched_change K p attr pi pol reset = Ret (0, p', c)"
    with change_params [OF rq [unfolded pol] prio_ok_static [OF assms(1)] assms(2,5), of pi reset] pol have
      "policy p' = wanted_policy attr p" "rt_priority p' = sched_priority attr" "sched_reset_on_fork p' = reset"
      "fair_policy (policy p') \<longrightarrow> task_nice p' = sched_nice attr" by auto
    with reset rq pol show ?thesis by (simp add: request_ok_def)
  next
    assume u: "pol = policy p \<and> (fair_policy pol \<longrightarrow> sched_nice attr = task_nice p) \<and>
      (rt_policy pol \<longrightarrow> sched_priority attr = rt_priority p) \<and> p' = p\<lparr>sched_reset_on_fork := reset\<rparr> \<and> c = []"
    then have p': "policy p' = policy p" "rt_priority p' = rt_priority p" "task_nice p' = task_nice p"
      "sched_reset_on_fork p' = reset" by (simp_all add: task_nice_def)
    moreover have "rt_priority p = sched_priority attr" using u rt rq by (cases "rt_policy pol") (simp_all add: request_ok_def)
    ultimately show ?thesis using u pol reset rq by (simp add: request_ok_def)
  qed
qed

text \<open>
  C11: a successful call sets what was asked for. Unless the caller asked to keep the parameters,
  the task has the requested policy (its own for \<open>sched_setparam\<close>), real-time priority, nice value
  and reset-on-fork flag.
\<close>

theorem setscheduler_sets:
  assumes "prio_ok p" and "pi_ok K" and "attr_ok attr"
    and "sched_setscheduler_core K [] p attr user pi = Ret (0, p', c)"
    and "\<not> has_flag attr SCHED_FLAG_KEEP_PARAMS"
  shows "policy p' = wanted_policy attr p \<and> rt_priority p' = sched_priority attr \<and>
    (fair_policy (policy p') \<longrightarrow> task_nice p' = sched_nice attr) \<and>
    sched_reset_on_fork p' = (if sched_policy attr < 0 then sched_reset_on_fork p
      else has_flag attr SCHED_FLAG_RESET_ON_FORK)"
  using setscheduler_result [OF assms] by blast

lemma unprivileged_okD:
  assumes "unprivileged_ok K p attr pol reset"
  shows "check_same_owner K p" and "\<not> dl_policy pol"
    and "rt_policy pol \<longrightarrow> sched_priority attr \<le> max (rt_priority p) (rlimit_rtprio K p)"
    and "fair_policy pol \<longrightarrow> task_nice p \<le> sched_nice attr \<or> can_nice K p (sched_nice attr)"
    and "sched_reset_on_fork p \<longrightarrow> reset"
proof -
  have d: "\<not> (fair_policy pol \<and> sched_nice attr < task_nice p \<and> \<not> can_nice K p (sched_nice attr))"
    "\<not> (rt_policy pol \<and> sched_priority attr > rt_priority p \<and> sched_priority attr > rlimit_rtprio K p)"
    "\<not> dl_policy pol" "check_same_owner K p" "\<not> (sched_reset_on_fork p \<and> \<not> reset)"
    using assms unfolding unprivileged_ok_def if_bool_eq_conj by blast+
  from d(3,4) show "\<not> dl_policy pol" and "check_same_owner K p" .
  from d(2) show "rt_policy pol \<longrightarrow> sched_priority attr \<le> max (rt_priority p) (rlimit_rtprio K p)" by auto
  from d(1) show "fair_policy pol \<longrightarrow> task_nice p \<le> sched_nice attr \<or> can_nice K p (sched_nice attr)" by auto
  from d(5) show "sched_reset_on_fork p \<longrightarrow> reset" by simp
qed

text \<open>
  C9: what a caller without \<open>CAP_SYS_NICE\<close> can achieve. A successful call was made by the
  owner, does not set the deadline policy, gives a real-time priority no higher than the old one
  or the resource limit, improves the nice value only within the resource limit, and does not
  clear the reset-on-fork flag.
\<close>

theorem setscheduler_unprivileged:
  assumes "prio_ok p" and "pi_ok K" and "attr_ok attr" and "\<not> cap_sys_nice K"
    and "sched_setscheduler_core K [] p attr True pi = Ret (0, p', c)"
  shows "(cred_euid K = euid p \<or> cred_euid K = uid p) \<and> \<not> dl_policy (wanted_policy attr p) \<and>
    (rt_policy (wanted_policy attr p) \<longrightarrow> sched_priority attr \<le> max (rt_priority p) (rlimit_rtprio K p)) \<and>
    (fair_policy (wanted_policy attr p) \<longrightarrow>
      task_nice p \<le> sched_nice attr \<or> nice_to_rlimit (sched_nice attr) \<le> rlimit_nice K p) \<and>
    (sched_reset_on_fork p \<longrightarrow> sched_policy attr < 0 \<or> has_flag attr SCHED_FLAG_RESET_ON_FORK)"
proof -
  from assms(1,3,5) obtain pol old reset where
    ck: "setsched_check K p attr True (sched_policy attr) = Inr (pol, old, reset)"
    and pol: "pol = wanted_policy attr p" by (rule core_cases)
  from check_Inr(8) [OF ck _ assms(4)] have "unprivileged_ok K p attr pol reset" by simp
  note U = unprivileged_okD [OF this]
  have "reset \<longrightarrow> sched_policy attr < 0 \<or> has_flag attr SCHED_FLAG_RESET_ON_FORK"
    using check_Inr(7) [OF ck] by simp
  with U assms(4) show ?thesis unfolding pol check_same_owner_def can_nice_def by simp
qed

definition queue_call :: "kcall \<Rightarrow> bool" where
  "queue_call x = (case x of Dequeue _ \<Rightarrow> True | Enqueue _ \<Rightarrow> True | PutPrev \<Rightarrow> True | SetNext \<Rightarrow> True | _ \<Rightarrow> False)"

lemma class_changed_calls: "filter queue_call (check_class_changed K p cl old) = []"
  by (simp add: check_class_changed_def queue_call_def)

lemma load_weight_calls: "set_load_weight K b p = Ret (p', c) \<Longrightarrow> filter queue_call c = []"
  by (auto simp: set_load_weight_def Let_def queue_call_def cbind_Ret_iff split: if_splits)

lemma change_calls:
  assumes "setsched_change K p attr pi pol reset = Ret (0, p', c)"
    and "task_current K (p\<lparr>sched_reset_on_fork := reset\<rparr>) = task_current K p"
  shows "\<exists>f. filter queue_call c =
    (if task_on_rq_queued p then [Dequeue f] else []) @ (if task_current K p then [PutPrev] else []) @
    (if task_on_rq_queued p then [Enqueue (f\<lparr>qHead := (prio p < prio p')\<rparr>)] else []) @
    (if task_current K p then [SetNext] else [])"
proof -
  let ?p1 = "p\<lparr>sched_reset_on_fork := reset\<rparr>"
  define n where "n = (if pi then rt_effective_prio K ?p1 (normal_prio_of pol (sched_priority attr) (sched_nice attr))
    else normal_prio_of pol (sched_priority attr) (sched_nice attr))"
  define f where "f = \<lparr>qSave = True, qMove = \<not> (pi \<and> n = prio p), qNoclock = True, qHead = False, qReplenish = False\<rparr>"
  obtain mid where mid: "filter queue_call mid = []" and c: "c =
      ((if task_on_rq_queued p then [Dequeue f] else []) @ (if task_current K p then [PutPrev] else [])) @ mid @
      (if task_on_rq_queued p then [Enqueue (if prio p < prio p' then f\<lparr>qHead := True\<rparr> else f)] else []) @
      (if task_current K p then [SetNext] else []) @ check_class_changed K p' (sched_class p) (prio p) @
      (if pi then [AdjustPi] else []) @ [BalanceCallbacks]"
  proof (cases "has_flag attr SCHED_FLAG_KEEP_PARAMS")
    case True
    with assms show thesis by (intro that [of "[]"])
      (auto simp: setsched_change_def Let_def n_def f_def task_on_rq_queued_def)
  next
    case False
    with assms(1) obtain p2 calls where lw: "setscheduler_params K attr ?p1 = Ret (p2, calls)"
      by (auto simp: setsched_change_def Let_def cbind_Ret_iff)
    with assms False show thesis
      by (intro that [of calls] load_weight_calls [of K True "with_params K attr ?p1" p2])
        (auto simp: setsched_change_def Let_def n_def f_def task_on_rq_queued_def params_eq)
  qed
  have "filter queue_call c =
    (if task_on_rq_queued p then [Dequeue f] else []) @ (if task_current K p then [PutPrev] else []) @
    (if task_on_rq_queued p then [Enqueue (f\<lparr>qHead := (prio p < prio p')\<rparr>)] else []) @
    (if task_current K p then [SetNext] else [])"
    unfolding c by (simp add: mid class_changed_calls) (simp add: queue_call_def f_def)
  then show ?thesis by blast
qed

text \<open>
  C12: the queue discipline of a policy change. A queued task is dequeued and enqueued exactly
  once, in this order, a running task is put and set exactly once around it, and the task goes to
  the head of its queue exactly when its priority got worse; a call that changes nothing makes no
  such call.
\<close>

theorem setscheduler_queue_discipline:
  assumes "prio_ok p" and "attr_ok attr" and "sched_setscheduler_core K [] p attr user pi = Ret (0, p', c)"
    and "\<forall>q r. task_current K (q\<lparr>sched_reset_on_fork := r\<rparr>) = task_current K q"
  shows "c = [] \<or> (\<exists>f. filter queue_call c =
    (if task_on_rq_queued p then [Dequeue f] else []) @ (if task_current K p then [PutPrev] else []) @
    (if task_on_rq_queued p then [Enqueue (f\<lparr>qHead := (prio p < prio p')\<rparr>)] else []) @
    (if task_current K p then [SetNext] else []))"
proof -
  from assms(1-3) obtain pol old reset where
    "pol = policy p \<and> (fair_policy pol \<longrightarrow> sched_nice attr = task_nice p) \<and>
      (rt_policy pol \<longrightarrow> sched_priority attr = rt_priority p) \<and> p' = p\<lparr>sched_reset_on_fork := reset\<rparr> \<and> c = [] \<or>
      setsched_change K p attr pi pol reset = Ret (0, p', c)" by (rule core_cases)
  then show ?thesis using change_calls [of K p attr pi pol reset p' c] assms(4) by blast
qed

subsection \<open>Witnesses\<close>

text \<open>An unprivileged owner with a limit of 50 asks for \<open>SCHED_FIFO\<close> at priority 40.\<close>

definition fifoAttr :: SchedAttr where
  "fifoAttr = \<lparr>attr_size = 56, sched_policy = 1, sched_flags = 0, sched_nice = 0, sched_priority = 40, sched_dl = []\<rparr>"

definition fifoTask :: Task where
  "fifoTask = plainTask\<lparr>policy := 1, rt_priority := 40, normal_prio_f := 59, prio := 59, sched_class := RtClass\<rparr>"

definition fifoCalls :: "kcall list" where
  "fifoCalls = (let f = \<lparr>qSave = True, qMove = True, qNoclock = True, qHead = False, qReplenish = False\<rparr> in
     [Dequeue f, PutPrev, Reweight 20, Enqueue f, SetNext, SwitchedFrom FairClass, SwitchedTo RtClass, AdjustPi, BalanceCallbacks])"

lemma fifo_request: "sched_setscheduler_core plainKern [] plainTask fifoAttr True True = Ret (0, fifoTask, fifoCalls)"
  by code_simp

lemma fifo_refused: "sched_setscheduler_core plainKern [] plainTask (fifoAttr\<lparr>sched_priority := 60\<rparr>) True True =
    Ret (- 1, plainTask, [])"
  by code_simp

lemma fifoAttr_ok: "attr_ok fifoAttr" "attr_ok (fifoAttr\<lparr>sched_priority := 60\<rparr>)"
  "\<not> has_flag fifoAttr SCHED_FLAG_KEEP_PARAMS"
  by (simp_all add: attr_ok_def fifoAttr_def has_flag_def)

lemma plainKern_pi: "pi_ok plainKern"
  by (simp add: pi_ok_def plainKern_def)

theorem setscheduler_keeps_consistent_witness:
  "\<exists>r p' c. sched_setscheduler_core plainKern [\<lambda>q. q\<lparr>sched_reset_on_fork := True\<rparr>] plainTask fifoAttr True True =
     Ret (r, p', c) \<and> prio_ok p'"
  by (rule setscheduler_keeps_consistent [OF plain_ok _ plainKern_pi fifoAttr_ok(1)]) simp

theorem setscheduler_error_unchanged_witness:
  "\<exists>r p' c. sched_setscheduler_core plainKern [] plainTask (fifoAttr\<lparr>sched_priority := 60\<rparr>) True True = Ret (r, p', c) \<and>
     r = - 1 \<and> p' = plainTask \<and> c = []"
  using setscheduler_error_unchanged [OF plain_ok plainKern_pi fifoAttr_ok(2) fifo_refused] fifo_refused by simp

theorem setscheduler_sets_witness:
  "\<exists>p' c. sched_setscheduler_core plainKern [] plainTask fifoAttr True True = Ret (0, p', c) \<and>
     policy p' = SCHED_FIFO \<and> rt_priority p' = 40 \<and> \<not> sched_reset_on_fork p'"
  using setscheduler_sets [OF plain_ok plainKern_pi fifoAttr_ok(1) fifo_request fifoAttr_ok(3)] fifo_request
  by (simp add: fifoAttr_def wanted_policy_def SETPARAM_POLICY_def SCHED_FIFO_def has_flag_def)

theorem setscheduler_unprivileged_witness:
  "\<exists>p' c. sched_setscheduler_core plainKern [] plainTask fifoAttr True True = Ret (0, p', c) \<and>
     cred_euid plainKern \<in> {euid plainTask, uid plainTask} \<and>
     sched_priority fifoAttr \<le> max (rt_priority plainTask) (rlimit_rtprio plainKern plainTask)"
  using setscheduler_unprivileged [OF plain_ok plainKern_pi fifoAttr_ok(1) _ fifo_request] fifo_request
  by (simp add: plainKern_def fifoAttr_def wanted_policy_def SETPARAM_POLICY_def sched_preds sched_consts)

theorem setscheduler_queue_discipline_witness:
  "fifoCalls = [] \<or> (\<exists>f. filter queue_call fifoCalls =
    (if task_on_rq_queued plainTask then [Dequeue f] else []) @ (if task_current plainKern plainTask then [PutPrev] else []) @
    (if task_on_rq_queued plainTask then [Enqueue (f\<lparr>qHead := (prio plainTask < prio fifoTask)\<rparr>)] else []) @
    (if task_current plainKern plainTask then [SetNext] else []))"
  by (rule setscheduler_queue_discipline [OF plain_ok fifoAttr_ok(1) fifo_request]) (simp add: plainKern_def)

end
