(* ===== verification/KSyscalls.thy ===== *)
theory KSyscalls
  imports KSetsched
begin

section \<open>The scheduler system calls (core.c)\<close>

text \<open>
  The calls that find a task, copy the caller's arguments, set or report scheduling attributes.
  The system is a table of tasks and the running task; a user pointer is null, faults when it is
  used, or gives the value behind it.
\<close>

record Sys =
  tasks :: "int \<Rightarrow> Task option"
  current :: int

datatype 'a uptr = Null | Faulty | At 'a

definition u32 :: "int \<Rightarrow> int" where
  "u32 n = n mod 2 ^ 32"

definition task_key :: "Sys \<Rightarrow> int \<Rightarrow> int" where
  "task_key S pd = (if pd \<noteq> 0 then pd else current S)"

definition find_process_by_pid :: "Sys \<Rightarrow> int \<Rightarrow> Task option" where
  "find_process_by_pid S pd = (if pd \<noteq> 0 then tasks S pd else tasks S (current S))"

subsection \<open>Setting policy and priority\<close>

definition sched_setscheduler_param ::
    "Kern \<Rightarrow> (Task \<Rightarrow> Task) list \<Rightarrow> Task \<Rightarrow> int \<Rightarrow> int \<Rightarrow> bool \<Rightarrow> (int \<times> Task \<times> kcall list) cres" where
  "sched_setscheduler_param K interf p pol prm check =
     (let attr = \<lparr>attr_size = 0, sched_policy = pol, sched_flags = 0,
            sched_nice = PRIO_TO_NICE (static_prio p), sched_priority = u32 prm, sched_dl = []\<rparr>;
          attr' = (if pol \<noteq> SETPARAM_POLICY \<and> pol AND SCHED_RESET_ON_FORK \<noteq> 0
                   then attr\<lparr>sched_flags := SCHED_FLAG_RESET_ON_FORK, sched_policy := pol AND NOT SCHED_RESET_ON_FORK\<rparr>
                   else attr)
      in sched_setscheduler_core K interf p attr' check True)"

definition sched_setscheduler ::
    "Kern \<Rightarrow> (Task \<Rightarrow> Task) list \<Rightarrow> Task \<Rightarrow> int \<Rightarrow> int \<Rightarrow> (int \<times> Task \<times> kcall list) cres" where
  "sched_setscheduler K interf p pol prm = sched_setscheduler_param K interf p pol prm True"

definition sched_setattr ::
    "Kern \<Rightarrow> (Task \<Rightarrow> Task) list \<Rightarrow> Task \<Rightarrow> SchedAttr \<Rightarrow> (int \<times> Task \<times> kcall list) cres" where
  "sched_setattr K interf p attr = sched_setscheduler_core K interf p attr True True"

definition sched_setattr_nocheck ::
    "Kern \<Rightarrow> (Task \<Rightarrow> Task) list \<Rightarrow> Task \<Rightarrow> SchedAttr \<Rightarrow> (int \<times> Task \<times> kcall list) cres" where
  "sched_setattr_nocheck K interf p attr = sched_setscheduler_core K interf p attr False True"

definition sched_setscheduler_nocheck ::
    "Kern \<Rightarrow> (Task \<Rightarrow> Task) list \<Rightarrow> Task \<Rightarrow> int \<Rightarrow> int \<Rightarrow> (int \<times> Task \<times> kcall list) cres" where
  "sched_setscheduler_nocheck K interf p pol prm = sched_setscheduler_param K interf p pol prm False"

text \<open>The kernel's own requests; a failure would only be reported.\<close>

definition sched_set_fifo :: "Kern \<Rightarrow> (Task \<Rightarrow> Task) list \<Rightarrow> Task \<Rightarrow> (int \<times> Task \<times> kcall list) cres" where
  "sched_set_fifo K interf p = sched_setscheduler_nocheck K interf p SCHED_FIFO (MAX_RT_PRIO div 2)"

definition sched_set_fifo_low :: "Kern \<Rightarrow> (Task \<Rightarrow> Task) list \<Rightarrow> Task \<Rightarrow> (int \<times> Task \<times> kcall list) cres" where
  "sched_set_fifo_low K interf p = sched_setscheduler_nocheck K interf p SCHED_FIFO 1"

definition sched_set_normal :: "Kern \<Rightarrow> (Task \<Rightarrow> Task) list \<Rightarrow> Task \<Rightarrow> int \<Rightarrow> (int \<times> Task \<times> kcall list) cres" where
  "sched_set_normal K interf p nice =
     sched_setattr_nocheck K interf p
       \<lparr>attr_size = 0, sched_policy = SCHED_NORMAL, sched_flags = 0, sched_nice = nice, sched_priority = 0, sched_dl = []\<rparr>"

text \<open>Running a call on the task behind a pid and storing the result.\<close>

definition on_task ::
    "(Task \<Rightarrow> (int \<times> Task \<times> kcall list) cres) \<Rightarrow> Sys \<Rightarrow> int \<Rightarrow> (int \<times> Sys \<times> kcall list) cres" where
  "on_task f S pd =
     (case find_process_by_pid S pd of
        None \<Rightarrow> Ret (- ESRCH, S, [])
      | Some p \<Rightarrow> cbind (f p) (\<lambda>(r, p', c). Ret (r, S\<lparr>tasks := (tasks S)(task_key S pd \<mapsto> p')\<rparr>, c)))"

definition do_sched_setscheduler ::
    "Kern \<Rightarrow> (Task \<Rightarrow> Task) list \<Rightarrow> Sys \<Rightarrow> int \<Rightarrow> int \<Rightarrow> int uptr \<Rightarrow> (int \<times> Sys \<times> kcall list) cres" where
  "do_sched_setscheduler K interf S pd pol param =
     (if param = Null \<or> pd < 0 then Ret (- EINVAL, S, [])
      else case param of
        At lparam \<Rightarrow> on_task (\<lambda>p. sched_setscheduler K interf p pol lparam) S pd
      | _ \<Rightarrow> Ret (- EFAULT, S, []))"

definition sys_sched_setscheduler ::
    "Kern \<Rightarrow> (Task \<Rightarrow> Task) list \<Rightarrow> Sys \<Rightarrow> int \<Rightarrow> int \<Rightarrow> int uptr \<Rightarrow> (int \<times> Sys \<times> kcall list) cres" where
  "sys_sched_setscheduler K interf S pd pol param =
     (if pol < 0 then Ret (- EINVAL, S, []) else do_sched_setscheduler K interf S pd pol param)"

definition sys_sched_setparam ::
    "Kern \<Rightarrow> (Task \<Rightarrow> Task) list \<Rightarrow> Sys \<Rightarrow> int \<Rightarrow> int uptr \<Rightarrow> (int \<times> Sys \<times> kcall list) cres" where
  "sys_sched_setparam K interf S pd param = do_sched_setscheduler K interf S pd SETPARAM_POLICY param"

subsection \<open>Extended attributes\<close>

definition SCHED_ATTR_SIZE_VER0 :: int where "SCHED_ATTR_SIZE_VER0 = 48"
definition SCHED_ATTR_SIZE_VER1 :: int where "SCHED_ATTR_SIZE_VER1 = 56"
definition PAGE_SIZE :: int where "PAGE_SIZE = 4096"

text \<open>
  A user's attribute structure: the size it states, and what \<open>copy_struct_from_user\<close> delivers
  for a size, an error or the structure.
\<close>

record UAttr =
  uattr_size :: int
  uattr_copy :: "int \<Rightarrow> int + SchedAttr"

definition clamp :: "int \<Rightarrow> int \<Rightarrow> int \<Rightarrow> int" where
  "clamp v lo hi = min (max v lo) hi"

definition sched_copy_attr :: "UAttr uptr \<Rightarrow> int + SchedAttr" where
  "sched_copy_attr uattr =
     (case uattr of
        At u \<Rightarrow>
          let size = (if uattr_size u = 0 then SCHED_ATTR_SIZE_VER0 else uattr_size u) in
          if size < SCHED_ATTR_SIZE_VER0 \<or> size > PAGE_SIZE then Inl (- E2BIG)
          else (case uattr_copy u size of
            Inl e \<Rightarrow> Inl e
          | Inr attr \<Rightarrow>
              if has_flag attr SCHED_FLAG_UTIL_CLAMP \<and> size < SCHED_ATTR_SIZE_VER1 then Inl (- EINVAL)
              else Inr (attr\<lparr>sched_nice := clamp (sched_nice attr) MIN_NICE MAX_NICE\<rparr>))
      | _ \<Rightarrow> Inl (- EFAULT))"

definition get_params :: "Kern \<Rightarrow> Task \<Rightarrow> SchedAttr \<Rightarrow> SchedAttr" where
  "get_params K p attr =
     (if dl_policy (policy p) then getparam_dl K p attr
      else if rt_policy (policy p) then attr\<lparr>sched_priority := rt_priority p\<rparr>
      else attr\<lparr>sched_nice := task_nice p\<rparr>)"

definition sys_sched_setattr ::
    "Kern \<Rightarrow> (Task \<Rightarrow> Task) list \<Rightarrow> Sys \<Rightarrow> int \<Rightarrow> UAttr uptr \<Rightarrow> int \<Rightarrow> (int \<times> Sys \<times> kcall list) cres" where
  "sys_sched_setattr K interf S pd uattr fl =
     (if uattr = Null \<or> pd < 0 \<or> fl \<noteq> 0 then Ret (- EINVAL, S, [])
      else case sched_copy_attr uattr of
        Inl e \<Rightarrow> Ret (e, S, [])
      | Inr attr \<Rightarrow>
          if sched_policy attr < 0 then Ret (- EINVAL, S, [])
          else
            let attr1 = (if has_flag attr SCHED_FLAG_KEEP_POLICY then attr\<lparr>sched_policy := SETPARAM_POLICY\<rparr> else attr) in
            on_task (\<lambda>p. sched_setattr K interf p
              (if has_flag attr1 SCHED_FLAG_KEEP_PARAMS then get_params K p attr1 else attr1)) S pd)"

subsection \<open>Reading back\<close>

definition sys_sched_getscheduler :: "Kern \<Rightarrow> Sys \<Rightarrow> int \<Rightarrow> int" where
  "sys_sched_getscheduler K S pd =
     (if pd < 0 then - EINVAL
      else case find_process_by_pid S pd of
        None \<Rightarrow> - ESRCH
      | Some p \<Rightarrow>
          let r = security_task_getscheduler K p in
          if r \<noteq> 0 then r
          else policy p OR (if sched_reset_on_fork p then SCHED_RESET_ON_FORK else 0))"

text \<open>The flag says whether the copy to the user succeeds; the second result is what was copied.\<close>

definition sys_sched_getparam :: "Kern \<Rightarrow> bool \<Rightarrow> Sys \<Rightarrow> int \<Rightarrow> bool \<Rightarrow> int \<times> int option" where
  "sys_sched_getparam K copyOk S pd nullParam =
     (if nullParam \<or> pd < 0 then (- EINVAL, None)
      else case find_process_by_pid S pd of
        None \<Rightarrow> (- ESRCH, None)
      | Some p \<Rightarrow>
          let r = security_task_getscheduler K p in
          if r \<noteq> 0 then (r, None)
          else if copyOk then (0, Some (if rt_policy (policy p) then rt_priority p else 0))
          else (- EFAULT, None))"

definition ksize :: int where "ksize = 56"

definition sched_attr_copy_to_user :: "bool \<Rightarrow> bool \<Rightarrow> SchedAttr \<Rightarrow> int \<Rightarrow> int \<times> SchedAttr option" where
  "sched_attr_copy_to_user accessOk copyOk kattr usize =
     (if \<not> accessOk then (- EFAULT, None)
      else let kattr' = kattr\<lparr>attr_size := min usize ksize\<rparr> in
        if copyOk then (0, Some kattr') else (- EFAULT, None))"

definition sys_sched_getattr ::
    "Kern \<Rightarrow> bool \<Rightarrow> bool \<Rightarrow> Sys \<Rightarrow> int \<Rightarrow> bool \<Rightarrow> int \<Rightarrow> int \<Rightarrow> int \<times> SchedAttr option" where
  "sys_sched_getattr K accessOk copyOk S pd nullAttr usize fl =
     (if nullAttr \<or> pd < 0 \<or> usize > PAGE_SIZE \<or> usize < SCHED_ATTR_SIZE_VER0 \<or> fl \<noteq> 0 then (- EINVAL, None)
      else case find_process_by_pid S pd of
        None \<Rightarrow> (- ESRCH, None)
      | Some p \<Rightarrow>
          let r = security_task_getscheduler K p in
          if r \<noteq> 0 then (r, None)
          else
            let k1 = \<lparr>attr_size = 0, sched_policy = policy p,
                  sched_flags = (if sched_reset_on_fork p then SCHED_FLAG_RESET_ON_FORK else 0),
                  sched_nice = 0, sched_priority = 0, sched_dl = []\<rparr>;
                k2 = get_params K p k1;
                k3 = k2\<lparr>sched_flags := sched_flags k2 AND SCHED_FLAG_ALL\<rparr>
            in sched_attr_copy_to_user accessOk copyOk k3 usize)"

subsection \<open>Priority ranges and the round-robin interval\<close>

definition sys_sched_get_priority_max :: "int \<Rightarrow> int" where
  "sys_sched_get_priority_max pol =
     (if pol = SCHED_FIFO \<or> pol = SCHED_RR then MAX_RT_PRIO - 1
      else if pol = SCHED_DEADLINE \<or> pol = SCHED_NORMAL \<or> pol = SCHED_BATCH \<or> pol = SCHED_IDLE then 0
      else - EINVAL)"

definition sys_sched_get_priority_min :: "int \<Rightarrow> int" where
  "sys_sched_get_priority_min pol =
     (if pol = SCHED_FIFO \<or> pol = SCHED_RR then 1
      else if pol = SCHED_DEADLINE \<or> pol = SCHED_NORMAL \<or> pol = SCHED_BATCH \<or> pol = SCHED_IDLE then 0
      else - EINVAL)"

text \<open>
  \<open>rrInterval\<close> is the class's \<open>get_rr_interval\<close>, \<open>None\<close> for a class without one; the result is
  in jiffies, as it is handed to \<open>jiffies_to_timespec64\<close>.
\<close>

definition sched_rr_get_interval ::
    "Kern \<Rightarrow> (sclass \<Rightarrow> (Task \<Rightarrow> int) option) \<Rightarrow> Sys \<Rightarrow> int \<Rightarrow> int \<times> int option" where
  "sched_rr_get_interval K rrInterval S pd =
     (if pd < 0 then (- EINVAL, None)
      else case find_process_by_pid S pd of
        None \<Rightarrow> (- ESRCH, None)
      | Some p \<Rightarrow>
          let r = security_task_getscheduler K p in
          if r \<noteq> 0 then (r, None)
          else (0, Some (case rrInterval (sched_class p) of None \<Rightarrow> 0 | Some f \<Rightarrow> f p)))"

subsection \<open>What the calls pass on\<close>

text \<open>The attributes that \<open>sched_setscheduler\<close> builds from a policy and a priority.\<close>

definition param_attr :: "Task \<Rightarrow> int \<Rightarrow> int \<Rightarrow> SchedAttr" where
  "param_attr p pol prm =
     (let attr = \<lparr>attr_size = 0, sched_policy = pol, sched_flags = 0,
            sched_nice = PRIO_TO_NICE (static_prio p), sched_priority = u32 prm, sched_dl = []\<rparr>
      in if pol \<noteq> SETPARAM_POLICY \<and> pol AND SCHED_RESET_ON_FORK \<noteq> 0
         then attr\<lparr>sched_flags := SCHED_FLAG_RESET_ON_FORK, sched_policy := pol AND NOT SCHED_RESET_ON_FORK\<rparr>
         else attr)"

lemma setscheduler_param_eq:
  "sched_setscheduler_param K interf p pol prm check =
     sched_setscheduler_core K interf p (param_attr p pol prm) check True"
  by (simp add: sched_setscheduler_param_def param_attr_def Let_def)

lemma param_attr_ok:
  assumes "prio_ok p" and "-1 \<le> pol"
  shows "attr_ok (param_attr p pol prm)" and "\<not> has_flag (param_attr p pol prm) SCHED_FLAG_KEEP_PARAMS"
    and "sched_priority (param_attr p pol prm) = u32 prm"
    and "0 \<le> pol \<Longrightarrow> has_flag (param_attr p pol prm) SCHED_FLAG_RESET_ON_FORK \<longleftrightarrow> pol AND SCHED_RESET_ON_FORK \<noteq> 0"
    and "0 \<le> pol \<Longrightarrow> sched_policy (param_attr p pol prm) = pol AND NOT SCHED_RESET_ON_FORK"
proof -
  have s: "100 \<le> static_prio p" "static_prio p \<le> 139" using assms(1) by (auto simp: prio_ok_def static_ok_def)
  have nn: "0 \<le> pol AND NOT SCHED_RESET_ON_FORK" if "pol \<noteq> -1" using that assms(2) by simp
  have same: "pol AND NOT SCHED_RESET_ON_FORK = pol" if "pol AND SCHED_RESET_ON_FORK = 0"
  proof -
    have "(pol AND NOT SCHED_RESET_ON_FORK) OR (pol AND SCHED_RESET_ON_FORK) = pol"
      by (rule bit_eqI) (auto simp: bit_simps)
    with that show ?thesis by simp
  qed
  have "-1 \<le> pol AND NOT SCHED_RESET_ON_FORK" if "pol \<noteq> -1" using nn [OF that] by linarith
  then show "attr_ok (param_attr p pol prm)"
    using s assms(2) by (auto simp: param_attr_def attr_ok_def Let_def PRIO_TO_NICE_def u32_def SETPARAM_POLICY_def)
  show "\<not> has_flag (param_attr p pol prm) SCHED_FLAG_KEEP_PARAMS"
    by (simp add: param_attr_def has_flag_def Let_def SCHED_FLAG_RESET_ON_FORK_def SCHED_FLAG_KEEP_PARAMS_def)
  show "sched_priority (param_attr p pol prm) = u32 prm" by (simp add: param_attr_def Let_def)
  show "has_flag (param_attr p pol prm) SCHED_FLAG_RESET_ON_FORK \<longleftrightarrow> pol AND SCHED_RESET_ON_FORK \<noteq> 0" if "0 \<le> pol"
    using that by (simp add: param_attr_def has_flag_def Let_def SCHED_FLAG_RESET_ON_FORK_def SETPARAM_POLICY_def)
  show "sched_policy (param_attr p pol prm) = pol AND NOT SCHED_RESET_ON_FORK" if "0 \<le> pol"
    using that same by (simp add: param_attr_def Let_def SETPARAM_POLICY_def)
qed

lemma on_task_find:
  assumes "on_task f S pd = Ret (r, S', c)" and "find_process_by_pid S pd = Some p"
  obtains p' where "f p = Ret (r, p', c)" and "find_process_by_pid S' pd = Some p'"
    and "S' = S\<lparr>tasks := (tasks S)(task_key S pd \<mapsto> p')\<rparr>"
  using assms by (auto simp: on_task_def find_process_by_pid_def task_key_def cbind_Ret_iff split: if_splits)

lemma single_bit: "(if a AND 2 ^ n \<noteq> 0 then 2 ^ n else 0) = a AND (2 ^ n :: int)"
  by (rule bit_eqI) (auto simp: and_exp_eq_0_iff_not_bit bit_simps)

lemma reset_bit: "(if pol AND SCHED_RESET_ON_FORK \<noteq> 0 then SCHED_RESET_ON_FORK else 0) = pol AND SCHED_RESET_ON_FORK"
proof -
  have r: "SCHED_RESET_ON_FORK = 2 ^ 30" by (simp add: SCHED_RESET_ON_FORK_def)
  show ?thesis unfolding r by (rule single_bit)
qed

text \<open>
  C10: what \<open>sched_setscheduler\<close> sets, the getters report. After a successful call on a task,
  \<open>sched_getscheduler\<close> returns exactly the policy argument, its reset-on-fork bit included, and
  \<open>sched_getparam\<close> the priority argument.
\<close>

theorem set_then_get:
  assumes "find_process_by_pid S pd = Some p" and "prio_ok p" and "pi_ok K"
    and "sys_sched_setscheduler K [] S pd pol (At prm) = Ret (0, S', c)"
    and "\<forall>q. security_task_getscheduler K q = 0"
  shows "sys_sched_getscheduler K S' pd = pol \<and> sys_sched_getparam K True S' pd False = (0, Some (u32 prm))"
proof -
  have pos: "0 \<le> pol" "0 \<le> pd"
    using assms(4) by (auto simp: sys_sched_setscheduler_def do_sched_setscheduler_def errnos split: if_splits)
  then have "on_task (\<lambda>p. sched_setscheduler K [] p pol prm) S pd = Ret (0, S', c)"
    using assms(4) by (simp add: sys_sched_setscheduler_def do_sched_setscheduler_def)
  then obtain p' where p': "sched_setscheduler K [] p pol prm = Ret (0, p', c)" "find_process_by_pid S' pd = Some p'"
    using assms(1) by (rule on_task_find)
  let ?a = "param_attr p pol prm"
  have run: "sched_setscheduler_core K [] p ?a True True = Ret (0, p', c)"
    using p'(1) by (simp add: sched_setscheduler_def setscheduler_param_eq)
  have "-1 \<le> pol" using pos by simp
  note A = param_attr_ok [OF assms(2) this, of prm]
  have "0 \<le> sched_policy ?a" using pos A(5) by simp
  then have w: "wanted_policy ?a p = sched_policy ?a" by (simp add: wanted_policy_def SETPARAM_POLICY_def)
  from setscheduler_result [OF assms(2,3) A(1) run A(2)] w pos A have
    f: "policy p' = pol AND NOT SCHED_RESET_ON_FORK" "rt_priority p' = u32 prm"
    "sched_reset_on_fork p' \<longleftrightarrow> pol AND SCHED_RESET_ON_FORK \<noteq> 0"
    "\<not> rt_policy (policy p') \<Longrightarrow> u32 prm = 0" by auto
  have "(pol AND NOT SCHED_RESET_ON_FORK) OR (pol AND SCHED_RESET_ON_FORK) = pol"
    by (rule bit_eqI) (auto simp: bit_simps)
  then have "sys_sched_getscheduler K S' pd = pol"
    using pos p'(2) f(1,3) assms(5) reset_bit [of pol] by (simp add: sys_sched_getscheduler_def)
  moreover have "sys_sched_getparam K True S' pd False = (0, Some (u32 prm))"
    using pos p'(2) f(2,4) assms(5) by (simp add: sys_sched_getparam_def)
  ultimately show ?thesis by simp
qed

lemma rt_param_attr:
  assumes "pol \<in> {SCHED_FIFO, SCHED_RR}"
  shows "param_attr p pol prm = \<lparr>attr_size = 0, sched_policy = pol, sched_flags = 0,
    sched_nice = PRIO_TO_NICE (static_prio p), sched_priority = u32 prm, sched_dl = []\<rparr>"
  using assms by (auto simp: param_attr_def Let_def SCHED_RESET_ON_FORK_def SCHED_FIFO_def SCHED_RR_def)

text \<open>
  C13: the priority range that \<open>sched_get_priority_min\<close> and \<open>sched_get_priority_max\<close> report is
  exactly the one \<open>sched_setscheduler\<close> accepts: a privileged caller succeeds for a real-time policy
  if and only if the priority lies in it.
\<close>

theorem priority_range_exact:
  assumes "find_process_by_pid S pd = Some p" and "prio_ok p" and "pi_ok K" and "0 \<le> pd"
    and "cap_sys_nice K" and "security_task_setscheduler K p = 0" and "\<not> is_stop_task K p"
    and "\<not> dl_policy (policy p)" and "\<not> dl_prio (prio p)" and "pol \<in> {SCHED_FIFO, SCHED_RR}"
  shows "(\<exists>S' c. sys_sched_setscheduler K [] S pd pol (At prm) = Ret (0, S', c)) \<longleftrightarrow>
    sys_sched_get_priority_min pol \<le> u32 prm \<and> u32 prm \<le> sys_sched_get_priority_max pol"
proof -
  let ?a = "param_attr p pol prm"
  have pol: "0 \<le> pol" "rt_policy pol" "valid_policy pol" "\<not> dl_policy pol" "\<not> fair_policy pol"
    using assms(10) by (auto simp: sched_preds sched_consts)
  have nn: "0 \<le> u32 prm" by (simp add: u32_def)
  have call: "sys_sched_setscheduler K [] S pd pol (At prm) =
      on_task (\<lambda>p. sched_setscheduler_core K [] p (param_attr p pol prm) True True) S pd"
    using pol(1) assms(4)
    by (simp add: sys_sched_setscheduler_def do_sched_setscheduler_def sched_setscheduler_def setscheduler_param_eq)
  have check: "setsched_check K p ?a True pol =
      (if 1 \<le> u32 prm \<and> u32 prm \<le> 99 then Inr (pol, -1, False) else Inl (- EINVAL))"
    using pol assms(5,6) nn
    by (auto simp: rt_param_attr [OF assms(10)] setsched_check_def Let_def has_flag_def MAX_RT_PRIO_def)
  show ?thesis
  proof (cases "1 \<le> u32 prm \<and> u32 prm \<le> 99")
    case True
    then have rq: "request_ok ?a (wanted_policy ?a p)" and keep: "\<not> has_flag ?a SCHED_FLAG_KEEP_PARAMS"
      and w: "wanted_policy ?a p = pol"
      using pol assms(2)
      by (auto simp: rt_param_attr [OF assms(10)] request_ok_def wanted_policy_def SETPARAM_POLICY_def has_flag_def
          PRIO_TO_NICE_def prio_ok_def static_ok_def)
    obtain q c where ch: "setsched_change K p ?a True pol False = Ret (0, q, c)"
      using change_params [OF rq prio_ok_static [OF assms(2)] assms(3) keep, of True False] w by auto
    have "\<exists>q c. sched_setscheduler_core K [] p ?a True True = Ret (0, q, c)"
      using True check ch assms(7,9) pol(1,4)
      by (auto simp: sched_setscheduler_core_def setsched_locked_def rt_param_attr [OF assms(10)])
    then show ?thesis
      using True assms(10) call assms(1)
      by (auto simp: on_task_def sys_sched_get_priority_min_def sys_sched_get_priority_max_def MAX_RT_PRIO_def)
  next
    case False
    have "sched_setscheduler_core K [] p ?a True True = Ret (- EINVAL, p, [])"
      using False check by (auto simp: sched_setscheduler_core_def rt_param_attr [OF assms(10)])
    with False assms(1,10) call show ?thesis
      by (auto simp: on_task_def sys_sched_get_priority_min_def sys_sched_get_priority_max_def MAX_RT_PRIO_def EINVAL_def)
  qed
qed

subsection \<open>Witnesses\<close>

definition plainSys :: Sys where
  "plainSys = \<lparr>tasks = [1000 \<mapsto> plainTask], current = 1000\<rparr>"

definition rootKern :: Kern where
  "rootKern = plainKern\<lparr>cap_sys_nice := True\<rparr>"

lemma plain_found: "find_process_by_pid plainSys 0 = Some plainTask" "find_process_by_pid plainSys 1000 = Some plainTask"
  by (simp_all add: find_process_by_pid_def plainSys_def)

lemma rootKern_pi: "pi_ok rootKern"
  by (simp add: rootKern_def pi_ok_def plainKern_def)

theorem priority_range_exact_witness:
  "(\<exists>S' c. sys_sched_setscheduler rootKern [] plainSys 0 SCHED_FIFO (At 99) = Ret (0, S', c)) \<longleftrightarrow>
    sys_sched_get_priority_min SCHED_FIFO \<le> u32 99 \<and> u32 99 \<le> sys_sched_get_priority_max SCHED_FIFO"
  by (rule priority_range_exact [OF plain_found(1) plain_ok rootKern_pi])
    (simp_all add: rootKern_def plainKern_def plainTask_def sched_preds sched_consts)

theorem set_then_get_witness:
  "\<exists>S' c. sys_sched_setscheduler rootKern [] plainSys 0 SCHED_FIFO (At 99) = Ret (0, S', c) \<and>
    sys_sched_getscheduler rootKern S' 0 = SCHED_FIFO \<and>
    sys_sched_getparam rootKern True S' 0 False = (0, Some (u32 99))"
proof -
  have "case sys_sched_setscheduler rootKern [] plainSys 0 SCHED_FIFO (At 99) of Ret (r, _) \<Rightarrow> r = 0 | _ \<Rightarrow> False"
    by code_simp
  then obtain S' c where r: "sys_sched_setscheduler rootKern [] plainSys 0 SCHED_FIFO (At 99) = Ret (0, S', c)"
    by (auto split: cres.splits)
  have "\<forall>q. security_task_getscheduler rootKern q = 0" by (simp add: rootKern_def plainKern_def)
  with set_then_get [OF plain_found(1) plain_ok rootKern_pi r] r show ?thesis by blast
qed

end
