(* ===== verification/KNice.thy ===== *)
theory KNice
  imports KSyscalls
begin

section \<open>Nice values and priority inheritance (core.c)\<close>

text \<open>
  The two other ways in which a task's priorities change: \<open>set_user_nice\<close> with the \<open>nice\<close>
  system call, and \<open>rt_mutex_setprio\<close>, which lends a waiter's priority to the owner of a lock
  and takes it back. Both keep a task consistent.
\<close>

subsection \<open>Nice values\<close>

definition nice_flags :: QFlags where
  "nice_flags = \<lparr>qSave = True, qMove = False, qNoclock = True, qHead = False, qReplenish = False\<rparr>"

definition set_user_nice :: "Kern \<Rightarrow> Task \<Rightarrow> int \<Rightarrow> (Task \<times> kcall list) cres" where
  "set_user_nice K p nice =
     (if task_nice p = nice \<or> nice < MIN_NICE \<or> nice > MAX_NICE then Ret (p, [])
      else if dl_policy (policy p) \<or> rt_policy (policy p) then Ret (p\<lparr>static_prio := NICE_TO_PRIO nice\<rparr>, [])
      else
        let queued = task_on_rq_queued p;
            running = task_current K p;
            before = (if queued then [Dequeue nice_flags] else []) @ (if running then [PutPrev] else [])
        in
        cbind (set_load_weight K True (p\<lparr>static_prio := NICE_TO_PRIO nice\<rparr>)) (\<lambda>(p1, calls).
          let old_prio = prio p1 in
          case effective_prio p1 of (pr, p2) \<Rightarrow>
            let p3 = p2\<lparr>prio := pr\<rparr> in
            Ret (p3, before @ calls @
              (if queued then [Enqueue nice_flags] else []) @ (if running then [SetNext] else []) @
              [PrioChanged (sched_class p3) old_prio])))"

definition sys_nice :: "Kern \<Rightarrow> Sys \<Rightarrow> int \<Rightarrow> (int \<times> Sys \<times> kcall list) cres" where
  "sys_nice K S increment =
     (case tasks S (current S) of
        None \<Rightarrow> UB
      | Some cur \<Rightarrow>
          let inc = clamp increment (- NICE_WIDTH) NICE_WIDTH;
              nice = clamp (task_nice cur + inc) MIN_NICE MAX_NICE
          in
          if inc < 0 \<and> \<not> can_nice K cur nice then Ret (- EPERM, S, [])
          else if security_task_setnice K cur nice \<noteq> 0 then Ret (security_task_setnice K cur nice, S, [])
          else cbind (set_user_nice K cur nice) (\<lambda>(cur', c).
            Ret (0, S\<lparr>tasks := (tasks S)(current S \<mapsto> cur')\<rparr>, c)))"

subsection \<open>Priority inheritance\<close>

text \<open>The deadline entity a boosted task uses: the donor's own or the one the donor uses.\<close>

definition donor_entity :: "Task \<Rightarrow> int option" where
  "donor_entity t = (case dl_pi_se t of None \<Rightarrow> Some (pid t) | Some d \<Rightarrow> Some d)"

text \<open>The deadline fields, the real-time timeout and the queue flags of a boost.\<close>

definition boost_fields ::
    "Kern \<Rightarrow> Task \<Rightarrow> Task option \<Rightarrow> int \<Rightarrow> int \<Rightarrow> QFlags \<Rightarrow> (Task \<times> QFlags) cres" where
  "boost_fields K p pi_task pr oldprio fl =
     (if dl_prio pr then
        if \<not> dl_prio (normal_prio_f p) \<or>
           (case pi_task of None \<Rightarrow> False | Some t \<Rightarrow> dl_prio (prio t) \<and> dl_entity_preempt K t p)
        then (case pi_task of
                None \<Rightarrow> UB
              | Some t \<Rightarrow> Ret (p\<lparr>dl_pi_se := donor_entity t\<rparr>, fl\<lparr>qReplenish := True\<rparr>))
        else Ret (p\<lparr>dl_pi_se := None\<rparr>, fl)
      else if rt_prio pr then
        Ret (if dl_prio oldprio then p\<lparr>dl_pi_se := None\<rparr> else p,
             if oldprio < pr then fl\<lparr>qHead := True\<rparr> else fl)
      else
        let p1 = (if dl_prio oldprio then p\<lparr>dl_pi_se := None\<rparr> else p) in
        Ret (if rt_prio oldprio then p1\<lparr>rt_timeout := 0\<rparr> else p1, fl))"

definition rt_mutex_setprio :: "Kern \<Rightarrow> Task \<Rightarrow> Task option \<Rightarrow> (Task \<times> kcall list) cres" where
  "rt_mutex_setprio K p pi_task =
     (let pr = rt_effective_prio' pi_task (normal_prio_f p) in
      if pi_top_task p = map_option pid pi_task \<and> pr = prio p \<and> \<not> dl_prio pr then Ret (p, [])
      else
        let p1 = p\<lparr>pi_top_task := map_option pid pi_task\<rparr> in
        if pr = prio p1 \<and> \<not> dl_prio pr then Ret (p1, [BalanceCallbacks])
        else if is_idle_task K p1 then Ret (p1, [BalanceCallbacks])
        else
          let oldprio = prio p1;
              fl = \<lparr>qSave = True, qMove = (oldprio \<noteq> pr), qNoclock = True, qHead = False, qReplenish = False\<rparr>;
              prev_class = sched_class p1;
              queued = task_on_rq_queued p1;
              running = task_current K p1
          in
          cbind (boost_fields K p1 pi_task pr oldprio fl) (\<lambda>(p2, fl').
            let p3 = setscheduler_prio pr p2 in
            Ret (p3, (if queued then [Dequeue fl] else []) @ (if running then [PutPrev] else []) @
              (if queued then [Enqueue fl'] else []) @ (if running then [SetNext] else []) @
              check_class_changed K p3 prev_class oldprio @ [BalanceCallbacks])))"

subsection \<open>Both keep a task consistent\<close>

lemma prio_okD:
  assumes "prio_ok p"
  shows "valid_policy (policy p)" and "static_ok p"
    and "if rt_policy (policy p) then 1 \<le> rt_priority p \<and> rt_priority p \<le> 99 else rt_priority p = 0"
    and "normal_prio_f p = normal_prio p" and "-1 \<le> prio p" and "prio p \<le> 139"
    and "\<not> idle_policy (policy p) \<Longrightarrow> prio p \<le> normal_prio p" and "sched_class p = class_of_prio (prio p)"
  using assms by (auto simp: prio_ok_def)

lemma set_user_nice_result:
  assumes "prio_ok p"
  shows "\<exists>p' c. set_user_nice K p nice = Ret (p', c) \<and> prio_ok p' \<and> policy p' = policy p \<and>
    rt_priority p' = rt_priority p \<and>
    task_nice p' = (if MIN_NICE \<le> nice \<and> nice \<le> MAX_NICE then nice else task_nice p) \<and>
    (rt_prio (prio p) \<longrightarrow> prio p' = prio p) \<and>
    (\<not> rt_prio (prio p) \<longrightarrow> p' = p \<or> prio p' = static_prio p')"
proof -
  note P = prio_okD [OF assms]
  note N = normal_prio_range [OF P(1-3)]
  consider (none) "task_nice p = nice \<or> nice < MIN_NICE \<or> nice > MAX_NICE"
    | (rt) "\<not> (task_nice p = nice \<or> nice < MIN_NICE \<or> nice > MAX_NICE)" "dl_policy (policy p) \<or> rt_policy (policy p)"
    | (fair) "\<not> (task_nice p = nice \<or> nice < MIN_NICE \<or> nice > MAX_NICE)" "\<not> (dl_policy (policy p) \<or> rt_policy (policy p))"
    by blast
  then show ?thesis
  proof cases
    case none
    then show ?thesis using assms by (auto simp: set_user_nice_def)
  next
    case rt
    let ?p = "p\<lparr>static_prio := NICE_TO_PRIO nice\<rparr>"
    have "set_user_nice K p nice = Ret (?p, [])" using rt by (simp add: set_user_nice_def)
    moreover have "normal_prio ?p = normal_prio p" using rt(2) by (auto simp: normal_prio_def normal_prio_of_def)
    moreover have "prio p < 100" using rt(2) N P(7) by (auto simp: sched_preds sched_consts)
    ultimately show ?thesis using rt P
      by (auto simp: prio_ok_def static_ok_def task_nice_def sched_preds sched_consts)
  next
    case fair
    let ?q = "p\<lparr>static_prio := NICE_TO_PRIO nice\<rparr>"
    have s: "static_ok ?q" using fair(1) by (auto simp: static_ok_def NICE_TO_PRIO_def sched_consts)
    obtain w m c where lw: "set_load_weight K True ?q = Ret (?q\<lparr>load_weight := w, load_inv_weight := m\<rparr>, c)"
      using set_load_weight_ok [OF s] by blast
    have n: "normal_prio ?q = NICE_TO_PRIO nice"
      using fair(2) by (simp add: normal_prio_def normal_prio_of_def PRIO_TO_NICE_def NICE_TO_PRIO_def)
    let ?r = "?q\<lparr>load_weight := w, load_inv_weight := m, normal_prio_f := NICE_TO_PRIO nice,
      prio := (if rt_prio (prio p) then prio p else NICE_TO_PRIO nice)\<rparr>"
    obtain c' where run: "set_user_nice K p nice = Ret (?r, c')"
      using fair lw n by (cases "rt_prio (prio p)") (auto simp: set_user_nice_def effective_prio_def Let_def)
    have nr: "normal_prio ?r = NICE_TO_PRIO nice" using n by (simp add: normal_prio_def)
    have b: "100 \<le> NICE_TO_PRIO nice" "NICE_TO_PRIO nice \<le> 139" using s by (simp_all add: static_ok_def)
    have cl: "sched_class ?r = class_of_prio (prio ?r)"
      using P(8) b by (simp add: class_of_prio_def rt_prio_def dl_prio_def MAX_RT_PRIO_def MAX_DL_PRIO_def)
    have "prio_ok ?r" unfolding prio_ok_def nr cl
      using P(1,3,5,6) b s by (simp add: rt_prio_def MAX_RT_PRIO_def static_ok_def)
    moreover have "task_nice ?r = nice" by (simp add: task_nice_def PRIO_TO_NICE_def NICE_TO_PRIO_def)
    ultimately show ?thesis using run fair(1)
      by (intro exI [of _ ?r] exI [of _ c']) (simp add: not_less)
  qed
qed

text \<open>
  C18: \<open>set_user_nice\<close>. On a consistent task it never fails; the task stays consistent, keeps its
  policy and real-time priority and gets the nice value when it is in range. A task that runs at
  a real-time priority keeps it; otherwise the new nice value is its priority at once.
\<close>

theorem set_user_nice_correct:
  assumes "prio_ok p"
  shows "\<exists>p' c. set_user_nice K p nice = Ret (p', c) \<and> prio_ok p' \<and> policy p' = policy p \<and>
    rt_priority p' = rt_priority p \<and>
    task_nice p' = (if MIN_NICE \<le> nice \<and> nice \<le> MAX_NICE then nice else task_nice p) \<and>
    (rt_prio (prio p) \<longrightarrow> prio p' = prio p) \<and>
    (\<not> rt_prio (prio p) \<longrightarrow> p' = p \<or> prio p' = static_prio p')"
  by (rule set_user_nice_result [OF assms])

theorem set_user_nice_correct_witness:
  "\<exists>p' c. set_user_nice plainKern plainTask 7 = Ret (p', c) \<and> prio_ok p' \<and> task_nice p' = 7"
  using set_user_nice_correct [OF plain_ok, of plainKern 7] by (auto simp: MIN_NICE_def MAX_NICE_def)

lemma boost_fields_result:
  assumes "pr = rt_effective_prio' pi_task (normal_prio_f p)"
  shows "\<exists>d t fl'. boost_fields K p pi_task pr oldprio fl = Ret (p\<lparr>dl_pi_se := d, rt_timeout := t\<rparr>, fl')"
proof -
  have dl: "boost_fields K p pi_task pr oldprio fl = Ret (p\<lparr>dl_pi_se := d, rt_timeout := rt_timeout p\<rparr>, fl')
      \<Longrightarrow> ?thesis" for d fl' by blast
  have own: "p\<lparr>dl_pi_se := dl_pi_se p, rt_timeout := t\<rparr> = p\<lparr>rt_timeout := t\<rparr>" for t by simp
  consider (donor) t where "dl_prio pr" "pi_task = Some t"
      "\<not> dl_prio (normal_prio_f p) \<or> dl_prio (prio t) \<and> dl_entity_preempt K t p"
    | (self) "dl_prio pr" "\<not> (\<not> dl_prio (normal_prio_f p) \<or>
        (case pi_task of None \<Rightarrow> False | Some t \<Rightarrow> dl_prio (prio t) \<and> dl_entity_preempt K t p))"
    | (rt) "\<not> dl_prio pr" "rt_prio pr" | (fair) "\<not> dl_prio pr" "\<not> rt_prio pr"
    using assms by (cases pi_task) (auto simp: rt_effective_prio'_def)
  then show ?thesis
  proof cases
    case donor
    then show ?thesis by (intro dl [of "donor_entity t" "fl\<lparr>qReplenish := True\<rparr>"]) (simp add: boost_fields_def)
  next
    case self
    then show ?thesis by (intro dl [of None fl]) (simp add: boost_fields_def)
  next
    case rt
    then show ?thesis
      by (intro dl [of "if dl_prio oldprio then None else dl_pi_se p" "if oldprio < pr then fl\<lparr>qHead := True\<rparr> else fl"])
        (simp add: boost_fields_def)
  next
    case fair
    have "boost_fields K p pi_task pr oldprio fl =
        Ret (p\<lparr>dl_pi_se := if dl_prio oldprio then None else dl_pi_se p,
          rt_timeout := if rt_prio oldprio then 0 else rt_timeout p\<rparr>, fl)"
      using fair by (simp add: boost_fields_def)
    then show ?thesis by blast
  qed
qed

lemma prio_ok_top [simp]: "prio_ok (p\<lparr>pi_top_task := x\<rparr>) = prio_ok p"
  by (simp add: prio_ok_def static_ok_def normal_prio_def)

lemma rt_mutex_result:
  assumes "prio_ok p" and "\<And>t. pi_task = Some t \<Longrightarrow> -1 \<le> prio t"
    and "\<not> is_idle_task K (p\<lparr>pi_top_task := map_option pid pi_task\<rparr>)"
  shows "\<exists>p' c. rt_mutex_setprio K p pi_task = Ret (p', c) \<and> prio_ok p' \<and>
    policy p' = policy p \<and> static_prio p' = static_prio p \<and> rt_priority p' = rt_priority p \<and>
    normal_prio p' = normal_prio p \<and> pi_top_task p' = map_option pid pi_task \<and>
    prio p' = rt_effective_prio' pi_task (normal_prio p)"
proof -
  note P = prio_okD [OF assms(1)]
  note N = normal_prio_range [OF P(1-3)]
  define pr where "pr = rt_effective_prio' pi_task (normal_prio_f p)"
  have pr: "-1 \<le> pr" "pr \<le> normal_prio p" "pr = rt_effective_prio' pi_task (normal_prio p)"
    using assms(2) N P(4) by (auto simp: pr_def rt_effective_prio'_def split: option.splits)
  let ?p1 = "p\<lparr>pi_top_task := map_option pid pi_task\<rparr>"
  show ?thesis
  proof (cases "pr = prio p \<and> \<not> dl_prio pr")
    case True
    then have T: "prio p = pr" "\<not> dl_prio pr" by auto
    have "\<exists>c. rt_mutex_setprio K p pi_task = Ret (?p1, c)"
    proof (cases "pi_top_task p = map_option pid pi_task")
      case eq: True
      have "?p1 = p" unfolding eq [symmetric] by simp
      then show ?thesis unfolding rt_mutex_setprio_def pr_def [symmetric] Let_def by (simp add: T eq)
    next
      case False
      then show ?thesis unfolding rt_mutex_setprio_def pr_def [symmetric] Let_def by (simp add: T)
    qed
    moreover have "normal_prio ?p1 = normal_prio p" by (simp add: normal_prio_def)
    ultimately show ?thesis using assms(1) True pr(3) by auto
  next
    case False
    define fl where "fl = \<lparr>qSave = True, qMove = (prio p \<noteq> pr), qNoclock = True, qHead = False, qReplenish = False\<rparr>"
    obtain d t fl' where bf: "boost_fields K ?p1 pi_task pr (prio p) fl = Ret (?p1\<lparr>dl_pi_se := d, rt_timeout := t\<rparr>, fl')"
      using boost_fields_result [of pr pi_task ?p1 K "prio p" fl] by (auto simp: pr_def)
    let ?p3 = "setscheduler_prio pr (?p1\<lparr>dl_pi_se := d, rt_timeout := t\<rparr>)"
    have "\<exists>c. rt_mutex_setprio K p pi_task = Ret (?p3, c)"
      using False assms(3) bf unfolding rt_mutex_setprio_def pr_def [symmetric] Let_def by (auto simp: fl_def)
    moreover have n: "normal_prio ?p3 = normal_prio p" by (simp add: setscheduler_prio_def normal_prio_def)
    moreover have "prio_ok ?p3" unfolding prio_ok_def n
      using P N pr by (simp add: setscheduler_prio_def class_of_prio_def static_ok_def)
    ultimately show ?thesis using pr(3) by (fastforce simp: setscheduler_prio_def)
  qed
qed



subsection \<open>The nice system call\<close>

text \<open>
  C20: the \<open>nice\<close> system call. A permitted call moves the nice value by the increment, clamped
  to the range from -20 to 19, and keeps the task consistent; lowering it beyond the resource
  limit without the capability is refused with \<open>-EPERM\<close> and changes nothing.
\<close>

theorem sys_nice_correct:
  assumes "tasks S (current S) = Some cur" and "prio_ok cur" and "\<forall>n. security_task_setnice K cur n = 0"
  shows "let nice = max (-20) (min 19 (task_nice cur + increment)) in
    (if increment < 0 \<and> \<not> can_nice K cur nice then sys_nice K S increment = Ret (- EPERM, S, [])
     else \<exists>cur' c. sys_nice K S increment = Ret (0, S\<lparr>tasks := (tasks S)(current S \<mapsto> cur')\<rparr>, c) \<and>
       prio_ok cur' \<and> task_nice cur' = nice)"
proof -
  have s: "-20 \<le> task_nice cur" "task_nice cur \<le> 19"
    using prio_okD(2) [OF assms(2)] by (auto simp: static_ok_def task_nice_def PRIO_TO_NICE_def)
  define nice where "nice = max (-20) (min 19 (task_nice cur + increment))"
  have n: "clamp (task_nice cur + clamp increment (- NICE_WIDTH) NICE_WIDTH) MIN_NICE MAX_NICE = nice"
    and i: "clamp increment (- NICE_WIDTH) NICE_WIDTH < 0 \<longleftrightarrow> increment < 0"
    using s by (auto simp: clamp_def nice_def MIN_NICE_def MAX_NICE_def NICE_WIDTH_def)
  obtain cur' c where set: "set_user_nice K cur nice = Ret (cur', c)" "prio_ok cur'"
    "task_nice cur' = (if MIN_NICE \<le> nice \<and> nice \<le> MAX_NICE then nice else task_nice cur)"
    using set_user_nice_result [OF assms(2), of K nice] by blast
  have "MIN_NICE \<le> nice \<and> nice \<le> MAX_NICE" by (auto simp: nice_def MIN_NICE_def MAX_NICE_def)
  with set assms(1,3) n i show ?thesis
    unfolding Let_def nice_def [symmetric] by (auto simp: sys_nice_def)
qed

theorem sys_nice_correct_witness: "sys_nice plainKern plainSys (-5) = Ret (- EPERM, plainSys, [])"
  using sys_nice_correct [of plainSys plainTask plainKern "-5"] plain_ok
  by (simp add: plainSys_def plainKern_def can_nice_def nice_to_rlimit_def task_nice_def plainTask_def
      PRIO_TO_NICE_def MAX_NICE_def)

end
