(* ===== verification/KFork.thy ===== *)
theory KFork
  imports KNice
begin

section \<open>The modified fork (core.c, sched_fork)\<close>

text \<open>
  Scheduler setup of a new task, with the modification that makes every new task a
  \<open>SCHED_FIFO\<close> task of real-time priority 99. The child given to \<open>sched_fork\<close> is the copy of
  its parent. List heads, timers and statistics are not part of the model.
\<close>

definition TASK_NEW :: int where "TASK_NEW = 0x0800"

definition sched_fork_basic :: "Kern \<Rightarrow> Task \<Rightarrow> Task" where
  "sched_fork_basic K p =
     p\<lparr>on_rq := 0, se_on_rq := 0, exec_start := 0, sum_exec_runtime := 0, prev_sum_exec_runtime := 0,
       nr_migrations := 0, vruntime := 0, dl_params := [], rt_timeout := 0, rt_time_slice := rr_timeslice K,
       rt_on_rq := 0\<rparr>"

definition reset_on_fork_step :: "Kern \<Rightarrow> Task \<Rightarrow> Task cres" where
  "reset_on_fork_step K p =
     (if \<not> sched_reset_on_fork p then Ret p
      else
        let p1 = (if dl_policy (policy p) \<or> rt_policy (policy p)
                  then p\<lparr>policy := SCHED_NORMAL, static_prio := NICE_TO_PRIO 0, rt_priority := 0\<rparr>
                  else if PRIO_TO_NICE (static_prio p) < 0 then p\<lparr>static_prio := NICE_TO_PRIO 0\<rparr> else p);
            p2 = p1\<lparr>normal_prio_f := static_prio p1, prio := static_prio p1\<rparr>
        in cbind (set_load_weight K False p2) (\<lambda>(p3, _). Ret (p3\<lparr>sched_reset_on_fork := False\<rparr>)))"

definition sched_fork :: "Kern \<Rightarrow> Task \<Rightarrow> Task \<Rightarrow> (int \<times> Task) cres" where
  "sched_fork K cur p =
     cbind (reset_on_fork_step K ((sched_fork_basic K p)\<lparr>state := TASK_NEW, prio := normal_prio_f cur\<rparr>)) (\<lambda>p1.
       let p2 = p1\<lparr>policy := SCHED_FIFO, prio := NICE_TO_PRIO (-30), rt_priority := 99\<rparr> in
       if dl_prio (prio p2) then Ret (- EAGAIN, p2)
       else
         let p3 = p2\<lparr>sched_class := (if rt_prio (prio p2) then RtClass else FairClass)\<rparr> in
         Ret (0, p3\<lparr>on_cpu := 0\<rparr>))"

definition BW_SHIFT :: nat where "BW_SHIFT = 20"
definition BW_UNIT :: "64 word" where "BW_UNIT = 0x100000"
definition RUNTIME_INF :: "64 word" where "RUNTIME_INF = - 1"

definition to_ratio :: "64 word \<Rightarrow> 64 word \<Rightarrow> 64 word" where
  "to_ratio period runtime =
     (if runtime = RUNTIME_INF then BW_UNIT
      else if period = 0 then 0
      else push_bit BW_SHIFT runtime div period)"

subsection \<open>What a new task looks like\<close>

lemma reset_step_result:
  assumes "static_ok p"
  shows "\<exists>p'. reset_on_fork_step K p = Ret p' \<and> static_ok p' \<and> state p' = state p \<and> on_rq p' = on_rq p \<and>
    cpu_burst p' = cpu_burst p \<and> cpu_burst_start p' = cpu_burst_start p \<and> \<not> sched_reset_on_fork p' \<and>
    euid p' = euid p \<and> uid p' = uid p \<and> (\<not> sched_reset_on_fork p \<longrightarrow> p' = p)"
proof (cases "sched_reset_on_fork p")
  case True
  define p1 where "p1 = (if dl_policy (policy p) \<or> rt_policy (policy p)
      then p\<lparr>policy := SCHED_NORMAL, static_prio := NICE_TO_PRIO 0, rt_priority := 0\<rparr>
      else if PRIO_TO_NICE (static_prio p) < 0 then p\<lparr>static_prio := NICE_TO_PRIO 0\<rparr> else p)"
  define p2 where "p2 = p1\<lparr>normal_prio_f := static_prio p1, prio := static_prio p1\<rparr>"
  have f: "static_ok p2" "state p2 = state p" "on_rq p2 = on_rq p" "cpu_burst p2 = cpu_burst p"
    "cpu_burst_start p2 = cpu_burst_start p" "euid p2 = euid p" "uid p2 = uid p"
    using assms by (auto simp: p2_def p1_def static_ok_def NICE_TO_PRIO_def)
  obtain w m c where lw: "set_load_weight K False p2 = Ret (p2\<lparr>load_weight := w, load_inv_weight := m\<rparr>, c)"
    using set_load_weight_ok [OF f(1)] by blast
  then have "reset_on_fork_step K p = Ret (p2\<lparr>load_weight := w, load_inv_weight := m, sched_reset_on_fork := False\<rparr>)"
    using True unfolding reset_on_fork_step_def Let_def p1_def [symmetric] p2_def [symmetric] by simp
  with f True show ?thesis by (simp add: static_ok_def)
next
  case False
  then show ?thesis using assms by (simp add: reset_on_fork_step_def)
qed

lemma sched_fork_result:
  assumes "static_ok p"
  shows "\<exists>p'. sched_fork K cur p = Ret (0, p') \<and> policy p' = SCHED_FIFO \<and> rt_priority p' = 99 \<and> prio p' = 90 \<and>
    sched_class p' = RtClass \<and> state p' = TASK_NEW \<and> on_rq p' = 0 \<and> \<not> sched_reset_on_fork p' \<and> static_ok p' \<and>
    cpu_burst p' = cpu_burst p \<and> cpu_burst_start p' = cpu_burst_start p \<and> euid p' = euid p \<and> uid p' = uid p"
proof -
  let ?q = "(sched_fork_basic K p)\<lparr>state := TASK_NEW, prio := normal_prio_f cur\<rparr>"
  have "static_ok ?q" using assms by (simp add: sched_fork_basic_def static_ok_def)
  from reset_step_result [OF this, of K] obtain p1 where p1: "reset_on_fork_step K ?q = Ret p1" "static_ok p1"
    "state p1 = TASK_NEW" "on_rq p1 = 0" "cpu_burst p1 = cpu_burst p" "cpu_burst_start p1 = cpu_burst_start p"
    "\<not> sched_reset_on_fork p1" "euid p1 = euid p" "uid p1 = uid p"
    by (auto simp: sched_fork_basic_def)
  let ?p' = "p1\<lparr>policy := SCHED_FIFO, prio := NICE_TO_PRIO (-30), rt_priority := 99, sched_class := RtClass, on_cpu := 0\<rparr>"
  have "sched_fork K cur p = Ret (0, ?p')"
    using p1(1) by (simp add: sched_fork_def Let_def dl_prio_def rt_prio_def NICE_TO_PRIO_def MAX_DL_PRIO_def MAX_RT_PRIO_def)
  with p1 show ?thesis by (simp add: static_ok_def NICE_TO_PRIO_def)
qed

text \<open>
  C21: every new task is real-time. \<open>sched_fork\<close> never fails, and whatever the parent was (and
  even when it asked for a reset on fork) the child is a \<open>SCHED_FIFO\<close> task of the real-time class
  with real-time priority 99 and kernel priority 90, not yet runnable, with the processor burst
  times of its parent.
\<close>

theorem fork_makes_fifo:
  assumes "static_ok p"
  shows "\<exists>p'. sched_fork K cur p = Ret (0, p') \<and> policy p' = SCHED_FIFO \<and> rt_priority p' = 99 \<and> prio p' = 90 \<and>
    sched_class p' = RtClass \<and> state p' = TASK_NEW \<and> on_rq p' = 0 \<and> \<not> sched_reset_on_fork p' \<and>
    cpu_burst p' = cpu_burst p \<and> cpu_burst_start p' = cpu_burst_start p"
  using sched_fork_result [OF assms] by blast

theorem fork_makes_fifo_witness:
  "\<exists>p'. sched_fork plainKern plainTask (plainTask\<lparr>sched_reset_on_fork := True\<rparr>) = Ret (0, p') \<and>
     policy p' = SCHED_FIFO \<and> rt_priority p' = 99 \<and> prio p' = 90 \<and> \<not> sched_reset_on_fork p'"
  using fork_makes_fifo [of "plainTask\<lparr>sched_reset_on_fork := True\<rparr>" plainKern plainTask]
  by (auto simp: static_ok_def plainTask_def)

lemma fifo99_normal_prio: "policy p = SCHED_FIFO \<Longrightarrow> rt_priority p = 99 \<Longrightarrow> normal_prio p = 0"
  by (simp add: normal_prio_def normal_prio_of_def sched_preds sched_consts)

lemma forked_check:
  assumes "policy p = SCHED_FIFO" and "rt_priority p = 99" and "\<not> sched_reset_on_fork p"
    and "cap_sys_nice K \<or> check_same_owner K p" and "security_task_setscheduler K p = 0"
  shows "setsched_check K p (param_attr p SCHED_FIFO 99) True SCHED_FIFO = Inr (SCHED_FIFO, -1, False)"
proof -
  have a: "param_attr p SCHED_FIFO 99 = \<lparr>attr_size = 0, sched_policy = SCHED_FIFO, sched_flags = 0,
      sched_nice = PRIO_TO_NICE (static_prio p), sched_priority = 99, sched_dl = []\<rparr>"
    using rt_param_attr [of SCHED_FIFO p 99] by (simp add: u32_def)
  have "cap_sys_nice K \<or> unprivileged_ok K p (param_attr p SCHED_FIFO 99) SCHED_FIFO False"
    using assms(1-4) unfolding a by (auto simp: unprivileged_ok_def sched_preds sched_consts)
  then show ?thesis using assms(5) unfolding a
    by (auto simp: setsched_check_def Let_def has_flag_def sched_preds sched_consts)
qed

text \<open>
  C23: the new task's priorities contradict each other. Its kernel priority is 90 although its
  policy and real-time priority give 0, so no new task is consistent; and asking for
  \<open>SCHED_FIFO\<close> at 99, the highest priority, which even an unprivileged owner may do, reports
  success and changes nothing: the task stays at 90.
\<close>

theorem fork_priority_stuck:
  assumes "static_ok p" and "sched_fork K cur p = Ret (0, p')"
    and "cap_sys_nice K \<or> check_same_owner K p" and "\<forall>q. security_task_setscheduler K q = 0"
    and "\<forall>q. \<not> is_stop_task K q"
  shows "\<not> prio_ok p' \<and> normal_prio p' = 0 \<and> prio p' = 90 \<and>
    (\<exists>p''. sched_setscheduler K [] p' SCHED_FIFO 99 = Ret (0, p'', []) \<and> prio p'' = 90)"
proof -
  have f: "policy p' = SCHED_FIFO" "rt_priority p' = 99" "prio p' = 90" "\<not> sched_reset_on_fork p'"
    "euid p' = euid p" "uid p' = uid p"
    using sched_fork_result [OF assms(1), of K cur] assms(2) by auto
  then have n: "normal_prio p' = 0" by (simp add: fifo99_normal_prio)
  have "\<not> prio_ok p'"
    using n f(1,3) by (auto simp: prio_ok_def idle_policy_def SCHED_FIFO_def SCHED_IDLE_def)
  moreover have "sched_setscheduler K [] p' SCHED_FIFO 99 = Ret (0, p'\<lparr>sched_reset_on_fork := False\<rparr>, [])"
  proof -
    have "cap_sys_nice K \<or> check_same_owner K p'" using assms(3) f by (simp add: check_same_owner_def)
    note ck = forked_check [OF f(1,2,4) this, unfolded assms(4) [rule_format], OF refl]
    have a: "sched_policy (param_attr p' SCHED_FIFO 99) = SCHED_FIFO" "sched_priority (param_attr p' SCHED_FIFO 99) = 99"
      "\<not> has_flag (param_attr p' SCHED_FIFO 99) SCHED_FLAG_UTIL_CLAMP"
      using rt_param_attr [of SCHED_FIFO p' 99] by (simp_all add: u32_def has_flag_def)
    show ?thesis using f ck a assms(5)
      by (simp add: sched_setscheduler_def setscheduler_param_eq sched_setscheduler_core_def setsched_locked_def
          fair_policy_def dl_policy_def SCHED_FIFO_def SCHED_NORMAL_def SCHED_BATCH_def SCHED_DEADLINE_def)
  qed
  ultimately show ?thesis using n f(3) by simp
qed

theorem fork_priority_stuck_witness:
  "\<exists>p'. sched_fork plainKern plainTask plainTask = Ret (0, p') \<and> \<not> prio_ok p' \<and> prio p' = 90"
proof -
  have s: "static_ok plainTask" by (simp add: static_ok_def plainTask_def)
  then obtain p' where r: "sched_fork plainKern plainTask plainTask = Ret (0, p')" using sched_fork_result by blast
  have "cap_sys_nice plainKern \<or> check_same_owner plainKern plainTask"
    by (simp add: check_same_owner_def plainKern_def plainTask_def)
  from fork_priority_stuck [OF s r this] r show ?thesis by (simp add: plainKern_def)
qed



text \<open>
  The bandwidth ratio. For a period and a runtime below 2 to the 44 the result is the
  quotient in units of 2 to the -20, without overflow; an unlimited runtime gives the unit.
\<close>

theorem to_ratio_exact:
  assumes "0 < uint period" and "uint runtime < 2 ^ 44"
  shows "uint (to_ratio period runtime) = uint runtime * 2 ^ 20 div uint period \<and>
    to_ratio period RUNTIME_INF = BW_UNIT"
proof -
  have ne: "runtime \<noteq> RUNTIME_INF"
  proof
    assume "runtime = RUNTIME_INF"
    then have "uint runtime = 2 ^ 64 - 1" by (simp add: RUNTIME_INF_def unsigned_minus_1_eq_mask mask_eq_exp_minus_1)
    with assms(2) show False by simp
  qed
  have "uint (push_bit 20 runtime) = uint runtime * 2 ^ 20"
    using assms(2) by (simp add: push_bit_eq_mult uint_word_ariths)
  moreover have "period \<noteq> 0" using assms(1) by auto
  ultimately show ?thesis using ne by (simp add: to_ratio_def BW_SHIFT_def uint_div)
qed

theorem to_ratio_exact_witness:
  "uint (to_ratio 1000000 950000) = uint (950000 :: 64 word) * 2 ^ 20 div uint (1000000 :: 64 word) \<and>
   to_ratio 1000000 RUNTIME_INF = BW_UNIT"
  by (rule to_ratio_exact) simp_all

end
