(* ===== verification/KSchedule.thy ===== *)
theory KSchedule
  imports KFork
begin

section \<open>The scheduler function and the burst times (core.c, __schedule)\<close>

text \<open>
  One run of \<open>__schedule\<close> on a processor. A context switch suspends the function in the task
  that called it and resumes it in the task that is switched to, which continues with the local
  variables it had when it was itself switched away: \<open>saved_next\<close> is its variable \<open>next\<close> of
  that time, \<open>None\<close> for a task that has never run and does not return into \<open>__schedule\<close>.
  Which task is picked, pending signals and the two readings of the clock are arguments.
\<close>

record STask = Task +
  nvcsw :: nat
  nivcsw :: nat
  in_iowait :: bool
  contributes_to_load :: bool
  saved_next :: "int option"

record Cpu =
  ctasks :: "int \<Rightarrow> STask option"
  ccurr :: int
  nr_switches :: nat
  nr_uninterruptible :: int
  nr_iowait :: int

definition TASK_RUNNING :: int where "TASK_RUNNING = 0"
definition TASK_UNINTERRUPTIBLE :: int where "TASK_UNINTERRUPTIBLE = 0x0002"
definition TASK_NOLOAD :: int where "TASK_NOLOAD = 0x0400"
definition PF_FROZEN :: "32 word" where "PF_FROZEN = 0x00010000"

definition deactivate_task :: "bool \<Rightarrow> STask \<Rightarrow> STask" where
  "deactivate_task sleep p = p\<lparr>on_rq := (if sleep then 0 else 2)\<rparr>"

text \<open>The part before the pick: a task that gives up the processor voluntarily and is not runnable.\<close>

definition put_to_sleep :: "bool \<Rightarrow> STask \<Rightarrow> Cpu \<Rightarrow> STask \<times> Cpu" where
  "put_to_sleep sigPending prev C =
     (if sigPending then (prev\<lparr>state := TASK_RUNNING\<rparr>, C)
      else
        let contributes = state prev AND TASK_UNINTERRUPTIBLE \<noteq> 0 \<and> state prev AND TASK_NOLOAD = 0 \<and>
              flags prev AND PF_FROZEN = 0;
            prev1 = deactivate_task True (prev\<lparr>contributes_to_load := contributes\<rparr>);
            C1 = (if contributes then C\<lparr>nr_uninterruptible := nr_uninterruptible C + 1\<rparr> else C)
        in (prev1, if in_iowait prev1 then C1\<lparr>nr_iowait := nr_iowait C1 + 1\<rparr> else C1))"

definition stamp :: "64 word \<Rightarrow> int \<Rightarrow> Cpu \<Rightarrow> Cpu" where
  "stamp now x C =
     (case ctasks C x of
        None \<Rightarrow> C
      | Some t \<Rightarrow> C\<lparr>ctasks := (ctasks C)(x \<mapsto> t\<lparr>cpu_burst_start := now\<rparr>)\<rparr>)"

definition schedule ::
    "bool \<Rightarrow> bool \<Rightarrow> int \<Rightarrow> 64 word \<Rightarrow> 64 word \<Rightarrow> Cpu \<Rightarrow> Cpu cres" where
  "schedule preempt sigPending nextPid now1 now2 C =
     (case ctasks C (ccurr C) of
        None \<Rightarrow> UB
      | Some prev0 \<Rightarrow>
          let voluntary = \<not> preempt \<and> state prev0 \<noteq> 0;
              (prev, C1) = (if voluntary then put_to_sleep sigPending prev0 C else (prev0, C))
          in
          if nextPid = ccurr C then Ret (C1\<lparr>ctasks := (ctasks C1)(ccurr C \<mapsto> prev)\<rparr>)
          else
            let prev1 = (if voluntary then prev\<lparr>nvcsw := nvcsw prev + 1\<rparr> else prev\<lparr>nivcsw := nivcsw prev + 1\<rparr>);
                prev2 = (if state prev1 = TASK_RUNNING
                         then prev1\<lparr>cpu_burst := now1 - cpu_burst_start prev1\<rparr> else prev1);
                prev3 = prev2\<lparr>saved_next := Some nextPid\<rparr>;
                C2 = C1\<lparr>ctasks := (ctasks C1)(ccurr C \<mapsto> prev3), nr_switches := nr_switches C1 + 1, ccurr := nextPid\<rparr>
            in
            case ctasks C2 nextPid of
              None \<Rightarrow> UB
            | Some nxt \<Rightarrow> Ret (case saved_next nxt of None \<Rightarrow> C2 | Some x \<Rightarrow> stamp now2 x C2))"

subsection \<open>What is measured\<close>

text \<open>No suspended task has itself as its saved next task, and every saved task exists.\<close>

definition cpu_ok :: "Cpu \<Rightarrow> bool" where
  "cpu_ok C \<longleftrightarrow> (\<forall>k t. ctasks C k = Some t \<longrightarrow> saved_next t \<noteq> Some k)"

lemma put_to_sleep_fields:
  assumes "put_to_sleep s p C = (p', C')"
  shows "ctasks C' = ctasks C" and "ccurr C' = ccurr C" and "saved_next p' = saved_next p"
    and "cpu_burst p' = cpu_burst p" and "cpu_burst_start p' = cpu_burst_start p"
    and "state p' = (if s then TASK_RUNNING else state p)"
proof -
  have "ctasks C' = ctasks C \<and> ccurr C' = ccurr C \<and> saved_next p' = saved_next p \<and> cpu_burst p' = cpu_burst p \<and>
    cpu_burst_start p' = cpu_burst_start p \<and> state p' = (if s then TASK_RUNNING else state p)"
  proof (cases s)
    case True
    with assms have "p' = p\<lparr>state := TASK_RUNNING\<rparr>" "C' = C" by (simp_all add: put_to_sleep_def)
    with True show ?thesis by simp
  next
    case False
    define c where "c = (state p AND TASK_UNINTERRUPTIBLE \<noteq> 0 \<and> state p AND TASK_NOLOAD = 0 \<and> flags p AND PF_FROZEN = 0)"
    define C1 where "C1 = (if c then C\<lparr>nr_uninterruptible := nr_uninterruptible C + 1\<rparr> else C)"
    have "p' = p\<lparr>contributes_to_load := c, on_rq := 0\<rparr>"
      and "C' = (if in_iowait p then C1\<lparr>nr_iowait := nr_iowait C1 + 1\<rparr> else C1)"
      using assms False unfolding put_to_sleep_def Let_def c_def [symmetric] C1_def [symmetric]
      by (simp_all add: deactivate_task_def)
    with False show ?thesis by (simp add: C1_def)
  qed
  then show "ctasks C' = ctasks C" and "ccurr C' = ccurr C" and "saved_next p' = saved_next p"
    and "cpu_burst p' = cpu_burst p" and "cpu_burst_start p' = cpu_burst_start p"
    and "state p' = (if s then TASK_RUNNING else state p)" by blast+
qed

lemma schedule_switch:
  assumes "schedule pre sig n t1 t2 C = Ret C'" and "ctasks C (ccurr C) = Some prev" and "n \<noteq> ccurr C"
  obtains p where "saved_next p = Some n" and "cpu_burst_start p = cpu_burst_start prev"
    and "cpu_burst p = (if pre \<or> sig \<or> state prev = 0
           then (if state prev = 0 \<or> \<not> pre then t1 - cpu_burst_start prev else cpu_burst prev) else cpu_burst prev)"
    and "ccurr C' = n" and "state p = (if \<not> pre \<and> state prev \<noteq> 0 \<and> sig then 0 else state prev)"
    and "\<exists>nxt. ctasks C n = Some nxt \<and>
      ctasks C' = (case saved_next nxt of
          None \<Rightarrow> (ctasks C)(ccurr C \<mapsto> p)
        | Some x \<Rightarrow> (case ((ctasks C)(ccurr C \<mapsto> p)) x of
            None \<Rightarrow> (ctasks C)(ccurr C \<mapsto> p)
          | Some t \<Rightarrow> (ctasks C)(ccurr C \<mapsto> p, x \<mapsto> t\<lparr>cpu_burst_start := t2\<rparr>)))"
proof -
  define vol where "vol = (\<not> pre \<and> state prev \<noteq> 0)"
  obtain q C1 where q: "(if vol then put_to_sleep sig prev C else (prev, C)) = (q, C1)" by (cases "if vol then put_to_sleep sig prev C else (prev, C)")
  have qf: "ctasks C1 = ctasks C" "saved_next q = saved_next prev"
    "cpu_burst q = cpu_burst prev" "cpu_burst_start q = cpu_burst_start prev"
    "state q = (if vol \<and> sig then 0 else state prev)"
    using q put_to_sleep_fields [of sig prev C q C1] by (auto simp: TASK_RUNNING_def split: if_splits)
  define p1 where "p1 = (if vol then q\<lparr>nvcsw := nvcsw q + 1\<rparr> else q\<lparr>nivcsw := nivcsw q + 1\<rparr>)"
  define p where "p = (if state p1 = TASK_RUNNING then p1\<lparr>cpu_burst := t1 - cpu_burst_start p1\<rparr> else p1)\<lparr>saved_next := Some n\<rparr>"
  have p1: "state p1 = state q" "cpu_burst p1 = cpu_burst q" "cpu_burst_start p1 = cpu_burst_start q"
    by (simp_all add: p1_def)
  define C2 where "C2 = C1\<lparr>ctasks := (ctasks C1)(ccurr C \<mapsto> p), nr_switches := nr_switches C1 + 1, ccurr := n\<rparr>"
  have run: "schedule pre sig n t1 t2 C = (case ctasks C2 n of None \<Rightarrow> UB
      | Some nxt \<Rightarrow> Ret (case saved_next nxt of None \<Rightarrow> C2 | Some x \<Rightarrow> stamp t2 x C2))"
    unfolding schedule_def assms(2) option.case Let_def vol_def [symmetric] q prod.case if_not_P [OF assms(3)]
      p1_def [symmetric] p_def [symmetric] C2_def [symmetric] by (rule refl)
  then obtain nxt where nxt: "ctasks C n = Some nxt"
    and C': "C' = (case saved_next nxt of None \<Rightarrow> C2 | Some x \<Rightarrow> stamp t2 x C2)"
    using assms(1,3) by (auto simp: C2_def qf split: option.splits)
  have "ctasks C' = (case saved_next nxt of
          None \<Rightarrow> (ctasks C)(ccurr C \<mapsto> p)
        | Some x \<Rightarrow> (case ((ctasks C)(ccurr C \<mapsto> p)) x of
            None \<Rightarrow> (ctasks C)(ccurr C \<mapsto> p)
          | Some t \<Rightarrow> (ctasks C)(ccurr C \<mapsto> p, x \<mapsto> t\<lparr>cpu_burst_start := t2\<rparr>)))"
    unfolding C' by (auto simp: C2_def stamp_def qf split: option.splits)
  moreover have "ccurr C' = n" unfolding C' by (simp add: C2_def stamp_def split: option.splits)
  moreover have "cpu_burst p = (if pre \<or> sig \<or> state prev = 0
           then (if state prev = 0 \<or> \<not> pre then t1 - cpu_burst_start prev else cpu_burst prev) else cpu_burst prev)"
    using p1 qf by (auto simp: p_def vol_def TASK_RUNNING_def)
  moreover have "saved_next p = Some n" "cpu_burst_start p = cpu_burst_start prev"
    "state p = (if \<not> pre \<and> state prev \<noteq> 0 \<and> sig then 0 else state prev)"
    using p1 qf by (auto simp: p_def vol_def)
  ultimately show thesis using that nxt by blast
qed

text \<open>
  C14: what a context switch records. On a switch from a runnable task the burst time is set to
  the time since its start stamp, whatever was accumulated before; a task that goes to sleep records
  nothing; and the task switched to keeps its old start stamp: the stamp is never given to the
  task that starts to run.
\<close>

theorem schedule_burst:
  assumes "cpu_ok C" and "schedule pre sig n t1 t2 C = Ret C'" and "n \<noteq> ccurr C"
    and "ctasks C (ccurr C) = Some prev"
  shows "cpu_ok C' \<and> ccurr C' = n \<and> ctasks C' n = ctasks C n \<and>
    (\<exists>p. ctasks C' (ccurr C) = Some p \<and>
      cpu_burst p = (if state prev = 0 \<or> \<not> pre \<and> sig then t1 - cpu_burst_start prev else cpu_burst prev))"
proof -
  from assms(2,4,3) obtain p where p: "saved_next p = Some n"
    "cpu_burst p = (if pre \<or> sig \<or> state prev = 0
      then (if state prev = 0 \<or> \<not> pre then t1 - cpu_burst_start prev else cpu_burst prev) else cpu_burst prev)"
    "ccurr C' = n"
    and ex: "\<exists>nxt. ctasks C n = Some nxt \<and>
      ctasks C' = (case saved_next nxt of
          None \<Rightarrow> (ctasks C)(ccurr C \<mapsto> p)
        | Some x \<Rightarrow> (case ((ctasks C)(ccurr C \<mapsto> p)) x of
            None \<Rightarrow> (ctasks C)(ccurr C \<mapsto> p)
          | Some t \<Rightarrow> (ctasks C)(ccurr C \<mapsto> p, x \<mapsto> t\<lparr>cpu_burst_start := t2\<rparr>)))"
    by (rule schedule_switch)
  from ex obtain nxt where nxt: "ctasks C n = Some nxt" and C': "ctasks C' = (case saved_next nxt of
          None \<Rightarrow> (ctasks C)(ccurr C \<mapsto> p)
        | Some x \<Rightarrow> (case ((ctasks C)(ccurr C \<mapsto> p)) x of
            None \<Rightarrow> (ctasks C)(ccurr C \<mapsto> p)
          | Some t \<Rightarrow> (ctasks C)(ccurr C \<mapsto> p, x \<mapsto> t\<lparr>cpu_burst_start := t2\<rparr>)))" by blast
  have x: "saved_next nxt \<noteq> Some n" using assms(1) nxt by (simp add: cpu_ok_def)
  have base: "saved_next t \<noteq> Some k" if "((ctasks C)(ccurr C \<mapsto> p)) k = Some t" for k t
    using that assms(1,3) p(1) by (auto simp: cpu_ok_def split: if_splits)
  then have "cpu_ok C'" unfolding cpu_ok_def C'
    by (auto split: option.splits if_splits)
  moreover have "ctasks C' n = ctasks C n" using C' x assms(3) nxt by (auto split: option.splits)
  moreover have "\<exists>p'. ctasks C' (ccurr C) = Some p' \<and> cpu_burst p' = cpu_burst p"
    unfolding C' by (auto split: option.splits)
  ultimately show ?thesis using p(2,3) by auto
qed

text \<open>
  C24: the recorded burst counts waiting time. When two runnable tasks alternate, what is recorded
  for the first one at its second switch is the time since it was switched away before, its waiting
  time included, and not the time since it was switched to.
\<close>

theorem burst_counts_waiting:
  assumes "ccurr C = a" and "a \<noteq> b" and "ctasks C a = Some ta" and "ctasks C b = Some tb"
    and "state ta = 0" and "state tb = 0" and "saved_next tb = Some a"
    and "schedule True False b t1 t1' C = Ret C1" and "schedule True False a t2 t2' C1 = Ret C2"
    and "schedule True False b t3 t3' C2 = Ret C3"
  shows "\<exists>t. ctasks C3 a = Some t \<and> cpu_burst t = t3 - t1'"
proof -
  have c0: "ctasks C (ccurr C) = Some ta" "b \<noteq> ccurr C" using assms(1-3) by auto
  from assms(8) c0 obtain p where p: "saved_next p = Some b" "ccurr C1 = b" "state p = 0"
    "ctasks C1 = (ctasks C)(a \<mapsto> p\<lparr>cpu_burst_start := t1'\<rparr>)"
    by (rule schedule_switch) (use assms in auto)
  have c1: "ctasks C1 (ccurr C1) = Some tb" "a \<noteq> ccurr C1" using p assms by auto
  from assms(9) c1 obtain q where q: "saved_next q = Some a" "ccurr C2 = a" "state q = 0"
    "ctasks C2 = (ctasks C1)(b \<mapsto> q\<lparr>cpu_burst_start := t2'\<rparr>)"
    by (rule schedule_switch) (use assms p in auto)
  have c2: "ctasks C2 (ccurr C2) = Some (p\<lparr>cpu_burst_start := t1'\<rparr>)" "b \<noteq> ccurr C2" using p q assms by auto
  from assms(10) c2 show ?thesis
    by (rule schedule_switch) (use assms p q in auto)
qed

subsection \<open>Witnesses\<close>

definition stask :: "int \<Rightarrow> int option \<Rightarrow> STask" where
  "stask k nx = \<lparr>pid = k, comm = ''testp'', policy = 1, prio = 90, static_prio = 120, normal_prio_f = 120,
     rt_priority = 99, sched_class = RtClass, sched_reset_on_fork = False, state = 0, on_rq = 1, on_cpu = 1,
     flags = 0, uid = 500, euid = 500, load_weight = 1024, load_inv_weight = 4194304, rt_timeout = 0,
     rt_time_slice = 0, rt_on_rq = 0, se_on_rq = 1, sum_exec_runtime = 0, prev_sum_exec_runtime = 0,
     exec_start = 0, nr_migrations = 0, vruntime = 0, dl_params = [], dl_deadline = 0, dl_pi_se = None,
     pi_top_task = None, cpus_mask = {0}, cpu_burst = 0, cpu_burst_start = 0, nvcsw = 0, nivcsw = 0,
     in_iowait = False, contributes_to_load = False, saved_next = nx\<rparr>"

definition twoTasks :: Cpu where
  "twoTasks = \<lparr>ctasks = [1 \<mapsto> stask 1 None, 2 \<mapsto> stask 2 (Some 1)], ccurr = 1, nr_switches = 0,
     nr_uninterruptible = 0, nr_iowait = 0\<rparr>"

lemma twoTasks_run: "\<exists>C1 C2 C3. schedule True False 2 100 101 twoTasks = Ret C1 \<and>
    schedule True False 1 200 201 C1 = Ret C2 \<and> schedule True False 2 300 301 C2 = Ret C3"
  by (simp add: twoTasks_def stask_def schedule_def Let_def stamp_def TASK_RUNNING_def)

theorem schedule_burst_witness:
  "\<exists>C1 p. schedule True False 2 100 101 twoTasks = Ret C1 \<and> cpu_ok C1 \<and> ctasks C1 2 = ctasks twoTasks 2 \<and>
     ctasks C1 1 = Some p \<and> cpu_burst p = 100"
proof -
  obtain C1 where r: "schedule True False 2 100 101 twoTasks = Ret C1" using twoTasks_run by blast
  have ok: "cpu_ok twoTasks" by (simp add: cpu_ok_def twoTasks_def stask_def)
  from schedule_burst [OF ok r, of "stask 1 None"] r show ?thesis
    by (auto simp: twoTasks_def stask_def)
qed

theorem burst_counts_waiting_witness:
  "\<exists>C1 C2 C3 t. schedule True False 2 100 101 twoTasks = Ret C1 \<and> schedule True False 1 200 201 C1 = Ret C2 \<and>
     schedule True False 2 300 301 C2 = Ret C3 \<and> ctasks C3 1 = Some t \<and> cpu_burst t = 300 - 101"
proof -
  obtain C1 C2 C3 where r: "schedule True False 2 100 101 twoTasks = Ret C1"
    "schedule True False 1 200 201 C1 = Ret C2" "schedule True False 2 300 301 C2 = Ret C3"
    using twoTasks_run by blast
  have "\<exists>t. ctasks C3 1 = Some t \<and> cpu_burst t = 300 - 101"
    by (rule burst_counts_waiting [OF _ _ _ _ _ _ _ r, of "stask 1 None" "stask 2 (Some 1)"])
      (simp_all add: twoTasks_def stask_def)
  with r show ?thesis by blast
qed

end
