(* ===== verification/KExit.thy ===== *)
theory KExit
  imports KTask C_IO
begin

section \<open>Process exit and the burst accounting (exit.c, do_exit)\<close>

text \<open>
  The end of a task: the accounting that the modification adds at the start of \<open>do_exit\<close> (log
  lines and running totals for tasks named \<open>testp\<close>), the checks, the sequence of cleanup calls in
  source order, and the ways into \<open>do_exit\<close>. Cleanup functions of other files are recorded by name.
\<close>

subsection \<open>State\<close>

record XTask =
  xpid :: int
  xtgid :: int
  xcomm :: string
  xpolicy :: int
  xburst :: "64 word"
  xflags :: "32 word"
  xmm :: bool
  xlive :: int
  xexit_code :: int
  xio_context :: bool
  xsplice_pipe :: bool
  xtask_frag :: bool
  xnr_dirtied :: int
  xpi_state_cache :: bool
  xstate :: int

datatype logline =
    ProcessLine int string int "64 word" "64 word" "64 word" "64 word"
  | TotalLine int "64 word" "64 word"

text \<open>The two static counters of exit.c and the kernel log.\<close>

record Acct =
  cpu_burst_total_tsk :: "64 word"
  child_process_count :: int
  klog :: "logline list"

definition PF_EXITING :: "32 word" where "PF_EXITING = 0x00000004"
definition PF_NOFREEZE :: "32 word" where "PF_NOFREEZE = 0x00008000"
definition TASK_UNINTERRUPTIBLE :: int where "TASK_UNINTERRUPTIBLE = 0x0002"
definition TASK_DEAD :: int where "TASK_DEAD = 0x0080"

subsection \<open>Accounting\<close>

definition secs :: "64 word \<Rightarrow> 64 word" where "secs t = t div 1000000000"
definition nanos :: "64 word \<Rightarrow> 64 word" where "nanos t = t mod 1000000000"

definition burst_account :: "XTask \<Rightarrow> Acct \<Rightarrow> Acct" where
  "burst_account tsk A =
     (if xcomm tsk \<noteq> ''testp'' then A
      else
        let count = child_process_count A + 1 in
        if count > 21 then
          A\<lparr>klog := klog A @ [TotalLine (xpid tsk) (secs (cpu_burst_total_tsk A)) (nanos (cpu_burst_total_tsk A))],
            child_process_count := 0, cpu_burst_total_tsk := 0\<rparr>
        else
          let total = cpu_burst_total_tsk A + xburst tsk in
          A\<lparr>klog := klog A @ [ProcessLine (xpolicy tsk) (xcomm tsk) (xpid tsk) (secs (xburst tsk)) (nanos (xburst tsk))
              (secs total) (nanos total)],
            child_process_count := count, cpu_burst_total_tsk := total\<rparr>)"

subsection \<open>The exit path\<close>

datatype xresult =
    XPanic string Acct
  | XHang XTask "string list" Acct
  | XBug Acct
  | XDead XTask "string list" Acct

definition do_task_dead :: "XTask \<Rightarrow> XTask" where
  "do_task_dead tsk = tsk\<lparr>xstate := TASK_DEAD, xflags := xflags tsk OR PF_NOFREEZE\<rparr>"

text \<open>
  The calls of \<open>do_exit\<close> in source order, cut at \<open>exit_notify\<close>: from the start to \<open>exit_signals\<close>, from
  there to the notification of the parent, and from the notification to the end.
\<close>

definition exit_entry_calls :: "bool \<Rightarrow> string list" where
  "exit_entry_calls in_atomic =
     [''force_uaccess_begin''] @ (if in_atomic then [''preempt_count_set''] else []) @
     [''profile_task_exit'', ''kcov_task_exit'', ''ptrace_event'', ''validate_creds_for_do_exit'']"

definition exit_cleanup_calls :: "bool \<Rightarrow> bool \<Rightarrow> string list" where
  "exit_cleanup_calls group_dead mm =
     [''io_uring_files_cancel'', ''exit_signals''] @ (if mm then [''sync_mm_rss''] else []) @
     [''acct_update_integrals''] @
     (if group_dead then [''hrtimer_cancel'', ''exit_itimers''] @ (if mm then [''setmax_mm_hiwater_rss''] else []) else []) @
     [''acct_collect''] @ (if group_dead then [''tty_audit_exit''] else []) @
     [''audit_free'', ''taskstats_exit'', ''exit_mm''] @
     (if group_dead then [''acct_process''] else []) @
     [''trace_sched_process_exit'', ''exit_sem'', ''exit_shm'', ''exit_files'', ''exit_fs''] @
     (if group_dead then [''disassociate_ctty''] else []) @
     [''exit_task_namespaces'', ''exit_task_work'', ''exit_thread'', ''perf_event_exit_task'',
      ''sched_autogroup_exit_task'', ''cgroup_exit'', ''flush_ptrace_hw_breakpoint'', ''exit_tasks_rcu_start'']"

definition exit_final_calls :: "XTask \<Rightarrow> string list" where
  "exit_final_calls tsk =
     [''proc_exit_connector'', ''mpol_put_task_policy''] @
     (if xpi_state_cache tsk then [''kfree''] else []) @ [''debug_check_no_locks_held''] @
     (if xio_context tsk then [''exit_io_context''] else []) @
     (if xsplice_pipe tsk then [''free_pipe_info''] else []) @
     (if xtask_frag tsk then [''put_page''] else []) @
     [''validate_creds_for_do_exit'', ''check_stack_usage'', ''preempt_disable''] @
     (if xnr_dirtied tsk \<noteq> 0 then [''dirty_throttle_leaks''] else []) @
     [''exit_rcu'', ''exit_tasks_rcu_finish'', ''lockdep_free_task'']"

definition do_exit :: "bool \<Rightarrow> bool \<Rightarrow> XTask \<Rightarrow> Acct \<Rightarrow> int \<Rightarrow> xresult" where
  "do_exit in_interrupt in_atomic tsk A code =
     (let A1 = burst_account tsk A in
      if in_interrupt then XPanic ''Aiee, killing interrupt handler!'' A1
      else if xpid tsk = 0 then XPanic ''Attempted to kill the idle task!'' A1
      else if xflags tsk AND PF_EXITING \<noteq> 0 then
        XHang (tsk\<lparr>xstate := TASK_UNINTERRUPTIBLE\<rparr>)
          (exit_entry_calls in_atomic @ [''futex_exit_recursive'', ''schedule'']) A1
      else
        let t1 = tsk\<lparr>xflags := xflags tsk OR PF_EXITING\<rparr>;
            t2 = t1\<lparr>xlive := xlive t1 - 1\<rparr>;
            group_dead = (xlive t2 = 0)
        in
        if group_dead \<and> xtgid t2 = 1 then XPanic ''Attempted to kill init!'' A1
        else
          let t3 = t2\<lparr>xexit_code := code\<rparr>;
              t4 = t3\<lparr>xmm := False\<rparr>
          in XDead (do_task_dead t4)
               (exit_entry_calls in_atomic @ exit_cleanup_calls group_dead (xmm t2) @ [''exit_notify''] @
                exit_final_calls t4 @ [''do_task_dead'']) A1)"

subsection \<open>Ways into do_exit\<close>

text \<open>
  The oops counter is an unsigned 32-bit number. The result is the new counter and how it ended.
\<close>

definition make_task_dead ::
    "32 word \<Rightarrow> 32 word \<Rightarrow> bool \<Rightarrow> bool \<Rightarrow> XTask \<Rightarrow> Acct \<Rightarrow> int \<Rightarrow> 32 word \<times> xresult" where
  "make_task_dead oops_limit oops_count in_interrupt in_atomic tsk A signr =
     (let n = oops_count + 1 in
      if n \<ge> oops_limit \<and> oops_limit \<noteq> 0 then (n, XPanic ''Oopsed too often'' A)
      else (n, do_exit in_interrupt in_atomic tsk A signr))"

definition complete_and_exit :: "bool \<Rightarrow> XTask \<Rightarrow> Acct \<Rightarrow> int \<Rightarrow> string list \<times> xresult" where
  "complete_and_exit completion tsk A code =
     ((if completion then [''complete''] else []), do_exit False False tsk A code)"

definition sys_exit :: "XTask \<Rightarrow> Acct \<Rightarrow> int \<Rightarrow> xresult" where
  "sys_exit tsk A error_code = do_exit False False tsk A (push_bit 8 (error_code AND 0xff))"

text \<open>
  The signal structure of a thread group. \<open>raced\<close> is the code another thread may have set
  between the first test and the lock.
\<close>

record Group =
  group_exiting :: bool
  group_exit_code :: int
  group_threads :: int
  zapped :: bool

definition group_exit_step :: "int option \<Rightarrow> Group \<Rightarrow> int \<Rightarrow> int \<times> Group" where
  "group_exit_step raced G exit_code =
     (if group_exiting G then (group_exit_code G, G)
      else if group_threads G \<noteq> 1 then
        (case raced of
           Some c \<Rightarrow> (c, G\<lparr>group_exiting := True, group_exit_code := c\<rparr>)
         | None \<Rightarrow> (exit_code, G\<lparr>group_exiting := True, group_exit_code := exit_code, zapped := True\<rparr>))
      else (exit_code, G))"

definition do_group_exit :: "int option \<Rightarrow> Group \<Rightarrow> XTask \<Rightarrow> Acct \<Rightarrow> int \<Rightarrow> Group \<times> xresult" where
  "do_group_exit raced G tsk A exit_code =
     (if exit_code AND 0x80 \<noteq> 0 then (G, XBug A)
      else case group_exit_step raced G exit_code of (code, G') \<Rightarrow>
        (G', do_exit False False tsk A code))"

definition sys_exit_group :: "int option \<Rightarrow> Group \<Rightarrow> XTask \<Rightarrow> Acct \<Rightarrow> int \<Rightarrow> Group \<times> xresult" where
  "sys_exit_group raced G tsk A error_code = do_group_exit raced G tsk A (push_bit 8 (error_code AND 0xff))"


subsection \<open>The accounting over a run of exits\<close>

definition account_all :: "XTask list \<Rightarrow> Acct \<Rightarrow> Acct" where
  "account_all ts A = foldl (\<lambda>B t. burst_account t B) A ts"

text \<open>The lines that a round of at most 21 exits writes: each with its own burst and the running sum.\<close>

fun round_lines :: "64 word \<Rightarrow> XTask list \<Rightarrow> logline list" where
  "round_lines acc [] = []"
| "round_lines acc (t # ts) =
     ProcessLine (xpolicy t) (xcomm t) (xpid t) (secs (xburst t)) (nanos (xburst t))
       (secs (acc + xburst t)) (nanos (acc + xburst t)) # round_lines (acc + xburst t) ts"

lemma account_all_Nil [simp]: "account_all [] A = A"
  by (simp add: account_all_def)

lemma account_all_Cons [simp]: "account_all (t # ts) A = account_all ts (burst_account t A)"
  by (simp add: account_all_def)

lemma account_all_append [simp]: "account_all (ts @ us) A = account_all us (account_all ts A)"
  by (simp add: account_all_def)

lemma burst_account_other: "xcomm t \<noteq> ''testp'' \<Longrightarrow> burst_account t A = A"
  by (simp add: burst_account_def)

lemma burst_account_count:
  assumes "xcomm t = ''testp''" "child_process_count A < 21"
  shows "burst_account t A =
    A\<lparr>klog := klog A @ round_lines (cpu_burst_total_tsk A) [t], child_process_count := child_process_count A + 1,
      cpu_burst_total_tsk := cpu_burst_total_tsk A + xburst t\<rparr>"
  using assms by (simp add: burst_account_def Let_def)

lemma burst_account_total:
  assumes "xcomm t = ''testp''" "child_process_count A = 21"
  shows "burst_account t A =
    A\<lparr>klog := klog A @ [TotalLine (xpid t) (secs (cpu_burst_total_tsk A)) (nanos (cpu_burst_total_tsk A))],
      child_process_count := 0, cpu_burst_total_tsk := 0\<rparr>"
  using assms by (simp add: burst_account_def Let_def)

lemma account_round:
  assumes "\<forall>t\<in>set ts. xcomm t = ''testp''" "child_process_count A + int (length ts) \<le> 21"
  shows "account_all ts A =
    A\<lparr>klog := klog A @ round_lines (cpu_burst_total_tsk A) ts,
      child_process_count := child_process_count A + int (length ts),
      cpu_burst_total_tsk := cpu_burst_total_tsk A + sum_list (map xburst ts)\<rparr>"
  using assms
proof (induction ts arbitrary: A)
  case Nil
  then show ?case by simp
next
  case (Cons t ts)
  define B where "B = burst_account t A"
  have B: "B = A\<lparr>klog := klog A @ round_lines (cpu_burst_total_tsk A) [t],
      child_process_count := child_process_count A + 1,
      cpu_burst_total_tsk := cpu_burst_total_tsk A + xburst t\<rparr>"
    unfolding B_def using Cons.prems by (intro burst_account_count) auto
  have "account_all ts B = B\<lparr>klog := klog B @ round_lines (cpu_burst_total_tsk B) ts,
      child_process_count := child_process_count B + int (length ts),
      cpu_burst_total_tsk := cpu_burst_total_tsk B + sum_list (map xburst ts)\<rparr>"
    using Cons.prems by (intro Cons.IH) (auto simp: B)
  then show ?case by (simp add: B_def[symmetric]) (simp add: B add.assoc)
qed

lemma account_ignores_others:
  "account_all ts A = account_all [t \<leftarrow> ts. xcomm t = ''testp''] A"
  by (induction ts arbitrary: A) (auto simp: burst_account_other)

text \<open>
  C15: the accounting of one session. Starting from cleared counters, let the tasks named testp
  among the exiting tasks \<open>ts\<close> be 21 in number, and let one more such task \<open>t\<close> exit, with tasks of
  other names exiting in between. Then the log gets one line per counted task, in order, each with
  the task's own burst and the running sum; the last task gets the total line, whose value is the
  sum of the 21 bursts (modulo \<open>2 ^ 64\<close>) and leaves out its own; and both counters are cleared again.
\<close>

theorem burst_session:
  assumes "length [u \<leftarrow> ts. xcomm u = ''testp''] = 21" "xcomm t = ''testp''"
    and "child_process_count A = 0" "cpu_burst_total_tsk A = 0"
  shows "account_all (ts @ [t]) A =
    (let us = [u \<leftarrow> ts. xcomm u = ''testp'']; total = sum_list (map xburst us) in
     A\<lparr>klog := klog A @ round_lines 0 us @ [TotalLine (xpid t) (secs total) (nanos total)]\<rparr>)"
proof -
  define us where "us = [u \<leftarrow> ts. xcomm u = ''testp'']"
  have len: "length us = 21" and testp: "\<forall>u\<in>set us. xcomm u = ''testp''"
    using assms(1) by (auto simp: us_def)
  define B where "B = account_all ts A"
  have "B = account_all us A" unfolding B_def us_def by (rule account_ignores_others)
  also have "\<dots> = A\<lparr>klog := klog A @ round_lines 0 us, child_process_count := 21,
      cpu_burst_total_tsk := sum_list (map xburst us)\<rparr>"
    using account_round[OF testp, of A] assms(3,4) len by simp
  finally have B: "B = \<dots>" .
  have "account_all (ts @ [t]) A = burst_account t B" by (simp add: B_def)
  also have "\<dots> = A\<lparr>klog := klog A @ round_lines 0 us @
      [TotalLine (xpid t) (secs (sum_list (map xburst us))) (nanos (sum_list (map xburst us)))]\<rparr>"
    using assms(3,4) by (subst burst_account_total[OF assms(2)]) (simp_all add: B)
  finally show ?thesis unfolding us_def[symmetric] Let_def .
qed

definition wtask :: "int \<Rightarrow> string \<Rightarrow> 64 word \<Rightarrow> XTask" where
  "wtask n nm burst = \<lparr>xpid = n, xtgid = n, xcomm = nm, xpolicy = 1, xburst = burst, xflags = 0,
     xmm = True, xlive = 1, xexit_code = 0, xio_context = False, xsplice_pipe = False, xtask_frag = False,
     xnr_dirtied = 0, xpi_state_cache = False, xstate = 0\<rparr>"

definition wacct :: Acct where
  "wacct = \<lparr>cpu_burst_total_tsk = 0, child_process_count = 0, klog = []\<rparr>"

theorem burst_session_witness:
  "last (klog (account_all (wtask 9 ''sh'' 5 # replicate 21 (wtask 50 ''testp'' 1500000000) @ [wtask 71 ''testp'' 7]) wacct))
     = TotalLine 71 31 500000000"
proof -
  have h: "length [u \<leftarrow> wtask 9 ''sh'' 5 # replicate 21 (wtask 50 ''testp'' 1500000000). xcomm u = ''testp''] = 21"
    "xcomm (wtask 71 ''testp'' 7) = ''testp''" "child_process_count wacct = 0" "cpu_burst_total_tsk wacct = 0"
    by code_simp+
  have e: "secs (sum_list (map xburst [u \<leftarrow> wtask 9 ''sh'' 5 # replicate 21 (wtask 50 ''testp'' 1500000000).
      xcomm u = ''testp''])) = 31"
    "nanos (sum_list (map xburst [u \<leftarrow> wtask 9 ''sh'' 5 # replicate 21 (wtask 50 ''testp'' 1500000000).
      xcomm u = ''testp''])) = 500000000" "xpid (wtask 71 ''testp'' 7) = 71"
    by code_simp+
  show ?thesis
    using burst_session[OF h] unfolding Let_def e append_Cons append_assoc by simp
qed


subsection \<open>How an exit ends\<close>

lemma exiting_flag: "(w OR PF_EXITING) OR PF_NOFREEZE = w OR 0x8004"
  by (simp add: PF_EXITING_def PF_NOFREEZE_def or.assoc)

lemma do_exit_recursive:
  assumes "\<not> ii" "xpid tsk \<noteq> 0" "xflags tsk AND PF_EXITING \<noteq> 0"
  shows "do_exit ii ia tsk A code = XHang (tsk\<lparr>xstate := TASK_UNINTERRUPTIBLE\<rparr>)
    (exit_entry_calls ia @ [''futex_exit_recursive'', ''schedule'']) (burst_account tsk A)"
  using assms by (simp add: do_exit_def Let_def)

lemma do_exit_dead:
  assumes "\<not> ii" "xpid tsk \<noteq> 0" "xflags tsk AND PF_EXITING = 0" "\<not> (xlive tsk = 1 \<and> xtgid tsk = 1)"
  shows "do_exit ii ia tsk A code =
    XDead (tsk\<lparr>xflags := xflags tsk OR 0x8004, xlive := xlive tsk - 1, xexit_code := code, xmm := False,
      xstate := TASK_DEAD\<rparr>)
     (exit_entry_calls ia @ exit_cleanup_calls (xlive tsk = 1) (xmm tsk) @ [''exit_notify''] @ exit_final_calls tsk @
      [''do_task_dead'']) (burst_account tsk A)"
proof -
  have n: "\<not> (xlive tsk - 1 = 0 \<and> xtgid tsk = 1)" using assms(4) by simp
  show ?thesis
    using assms(1-3) n by (simp add: do_exit_def Let_def do_task_dead_def exiting_flag exit_final_calls_def)
qed

lemma do_exit_panics:
  assumes "ii \<or> xpid tsk = 0 \<or> xflags tsk AND PF_EXITING = 0 \<and> xlive tsk = 1 \<and> xtgid tsk = 1"
  shows "\<exists>m. do_exit ii ia tsk A code = XPanic m (burst_account tsk A)"
  using assms by (auto simp: do_exit_def Let_def)

text \<open>The order that the rest of the system relies on: cleanup, then one notification, then death.\<close>

definition ordered_exit :: "string list \<Rightarrow> bool" where
  "ordered_exit cs =
     (let pre = takeWhile (\<lambda>c. c \<noteq> ''exit_notify'') cs; post = dropWhile (\<lambda>c. c \<noteq> ''exit_notify'') cs in
      list_all (\<lambda>c. c \<in> set pre) [''exit_signals'', ''exit_mm'', ''exit_files'', ''cgroup_exit''] \<and>
      ''do_task_dead'' \<notin> set pre \<and> post \<noteq> [] \<and> ''exit_notify'' \<notin> set (tl post) \<and> last post = ''do_task_dead'' \<and>
      ''do_task_dead'' \<notin> set (butlast post))"

lemma entry_calls_free: "''exit_notify'' \<notin> set (exit_entry_calls ia)" "''do_task_dead'' \<notin> set (exit_entry_calls ia)"
  by (simp_all add: exit_entry_calls_def)

lemma cleanup_calls_free:
  "''exit_notify'' \<notin> set (exit_cleanup_calls gd mm)" "''do_task_dead'' \<notin> set (exit_cleanup_calls gd mm)"
  by (simp_all add: exit_cleanup_calls_def)

lemma final_calls_free:
  "''exit_notify'' \<notin> set (exit_final_calls t)" "''do_task_dead'' \<notin> set (exit_final_calls t)"
  by (simp_all add: exit_final_calls_def)

lemma cleanup_calls_has:
  "list_all (\<lambda>c. c \<in> set (exit_cleanup_calls gd mm)) [''exit_signals'', ''exit_mm'', ''exit_files'', ''cgroup_exit'']"
  by (simp add: exit_cleanup_calls_def)

lemma takeWhile_upto_mark:
  "x \<notin> set pre \<Longrightarrow> takeWhile (\<lambda>c. c \<noteq> x) (pre @ x # post) = pre"
  "x \<notin> set pre \<Longrightarrow> dropWhile (\<lambda>c. c \<noteq> x) (pre @ x # post) = x # post"
  by (induction pre) auto

lemma exit_calls_ordered:
  "ordered_exit (exit_entry_calls ia @ exit_cleanup_calls gd mm @ [''exit_notify''] @ exit_final_calls t @ [''do_task_dead''])"
proof -
  let ?pre = "exit_entry_calls ia @ exit_cleanup_calls gd mm"
  have n: "''exit_notify'' \<notin> set ?pre" by (simp add: entry_calls_free cleanup_calls_free)
  have eq: "exit_entry_calls ia @ exit_cleanup_calls gd mm @ [''exit_notify''] @ exit_final_calls t @ [''do_task_dead''] =
      ?pre @ ''exit_notify'' # (exit_final_calls t @ [''do_task_dead''])" by simp
  have "list_all (\<lambda>c. c \<in> set ?pre) [''exit_signals'', ''exit_mm'', ''exit_files'', ''cgroup_exit'']"
    using cleanup_calls_has[of gd mm] by (simp add: list_all_iff)
  then show ?thesis
    unfolding ordered_exit_def Let_def eq takeWhile_upto_mark[OF n]
    by (simp add: entry_calls_free cleanup_calls_free final_calls_free butlast_append)
qed


definition exit_fatal :: "bool \<Rightarrow> XTask \<Rightarrow> bool" where
  "exit_fatal ii tsk =
     (ii \<or> xpid tsk = 0 \<or> xflags tsk AND PF_EXITING = 0 \<and> xlive tsk = 1 \<and> xtgid tsk = 1)"


subsection \<open>The status of exit and exit_group\<close>

lemma status_eq: "push_bit 8 (n AND 0xff) = (n mod 256) * (256 :: int)"
proof -
  have "n AND 0xff = take_bit 8 n" using take_bit_eq_mask[of 8 n] by (simp add: mask_eq_exp_minus_1)
  then show ?thesis by (simp add: push_bit_eq_mult take_bit_eq_mod)
qed

lemma status_no_signal_bits: "((n :: int) mod 256 * 256) AND 0xff = 0"
proof -
  have "(n mod 256 * 256) AND 0xff = take_bit 8 (n mod 256 * 256)"
    using take_bit_eq_mask[of 8 "n mod 256 * 256"] by (simp add: mask_eq_exp_minus_1)
  also have "\<dots> = 0" by (simp add: take_bit_eq_mod)
  finally show ?thesis .
qed

lemma and_mono_zero: "(a :: int) AND 0xff = 0 \<Longrightarrow> a AND 0x80 = 0" "(a :: int) AND 0xff = 0 \<Longrightarrow> a AND 0x7f = 0"
proof -
  assume "a AND 0xff = 0"
  then have "(a AND 0xff) AND 0x80 = 0" "(a AND 0xff) AND 0x7f = 0" by simp_all
  then show "a AND 0x80 = 0" "a AND 0x7f = 0" by (simp_all add: and.assoc)
qed

lemma status_clean: "push_bit 8 (n AND 0xff) AND (0x80 :: int) = 0" "push_bit 8 (n AND 0xff) AND (0x7f :: int) = 0"
  unfolding status_eq by (simp_all only: and_mono_zero status_no_signal_bits)

lemma status_decode: "drop_bit 8 (push_bit 8 (n AND 0xff)) = (n mod 256 :: int)"
  unfolding status_eq by (simp add: drop_bit_eq_div)


end
