(* ===== verification/Spec2Isabelle.thy ===== *)
theory Spec2Isabelle
  imports PageMain Assignment2 NewPs Assignment3 KFork KSchedule KExit
begin

text \<open>
  Verification of the OS2023 course programs.
\<close>

end
